theory Spec2Isabelle
  imports Complex_Main "HOL-Library.Word"
begin

unbundle bit_operations_syntax

section \<open>Common types\<close>

type_synonym u8 = "8 word"
type_synonym u16 = "16 word"
type_synonym u32 = "32 word"

section \<open>The USB host seen by the bridge driver (libusb)\<close>

text \<open>
  The bridge driver talks to libusb. What libusb answers is the environment of the driver:
  a record of the answers of the calls made while opening, and the outcome of the
  \<open>k\<close>-th call of \<open>libusb_bulk_transfer\<close> since construction, given the number
  \<open>len\<close> of bytes it was asked to move: return code, number of bytes transferred, and
  the byte delivered when the endpoint is the read endpoint.
\<close>

record bulk_result =
  ret :: int
  transferred :: int
  rx_byte :: u8

record usb_descriptor =
  descriptor_ret :: int
  idVendor :: u16
  idProduct :: u16

record usb_host =
  init_ret :: int
  device_list :: "usb_descriptor list option"
  open_ret :: int
  set_configuration_ret :: int
  claim_interface_ret :: int
  bulk :: "nat \<Rightarrow> nat \<Rightarrow> bulk_result"

section \<open>CH341Config.hpp\<close>

definition VENDOR_ID :: u16 where "VENDOR_ID = 0x1A86"
definition PRODUCT_ID :: u16 where "PRODUCT_ID = 0x5512"
definition CMD_SPI_STREAM :: u8 where "CMD_SPI_STREAM = 0xA8"
definition CMD_UIO_STREAM :: u8 where "CMD_UIO_STREAM = 0xAB"
definition CMD_UIO_STM_OUT :: u8 where "CMD_UIO_STM_OUT = 0x80"
definition CMD_UIO_STM_DIR :: u8 where "CMD_UIO_STM_DIR = 0x40"
definition CMD_UIO_STM_END :: u8 where "CMD_UIO_STM_END = 0x20"
definition CMD_I2C_STREAM :: u8 where "CMD_I2C_STREAM = 0xAA"
definition CMD_I2C_STM_SET :: u8 where "CMD_I2C_STM_SET = 0x60"
definition CMD_I2C_STM_END :: u8 where "CMD_I2C_STM_END = 0x00"

section \<open>CH341SPI.cpp: the bridge protocol driver\<close>

text \<open>
  The object state. \<open>device\<close> and \<open>usb_context\<close> (the member \<open>context\<close>) say
  whether the two libusb pointers are non-null. \<open>device_index\<close> is a natural number: a negative index passes the range check of
  \<open>open\<close> and indexes the vector out of bounds, which is outside this model. \<open>calls\<close> counts
  the bulk transfers made so far and \<open>sent\<close> keeps every packet handed to the write
  endpoint, oldest first. The GPIO cache and the interrupt thread are not modelled.
\<close>

record CH341SPI =
  device :: bool
  usb_context :: bool
  device_index :: nat
  lsb_first :: bool
  is_open :: bool
  interruptEnabled :: bool
  threadRunning :: bool
  host :: usb_host
  calls :: nat
  sent :: "u8 list list"

text \<open>
  The constructor initialises \<open>device\<close>, \<open>context\<close> (from \<open>libusb_init\<close>),
  \<open>device_index\<close>, \<open>lsb_first\<close>, \<open>interruptEnabled\<close> and \<open>threadRunning\<close>. The member \<open>is_open\<close> is not in the
  initialiser list and is not assigned in the body: it starts with whatever the memory
  holds, here the parameter \<open>uninit\<close>.
\<close>

definition CH341SPI_new :: "usb_host \<Rightarrow> nat \<Rightarrow> bool \<Rightarrow> bool \<Rightarrow> CH341SPI" where
  "CH341SPI_new h idx lsb uninit =
     \<lparr>device = False, usb_context = (init_ret h = 0), device_index = idx, lsb_first = lsb,
      is_open = uninit, interruptEnabled = False, threadRunning = False,
      host = h, calls = 0, sent = []\<rparr>"

definition bulk_write :: "CH341SPI \<Rightarrow> u8 list \<Rightarrow> bulk_result \<times> CH341SPI" where
  "bulk_write s pkt =
     (bulk (host s) (calls s) (length pkt), s\<lparr>calls := Suc (calls s), sent := sent s @ [pkt]\<rparr>)"

definition bulk_read :: "CH341SPI \<Rightarrow> bulk_result \<times> CH341SPI" where
  "bulk_read s = (bulk (host s) (calls s) 1, s\<lparr>calls := Suc (calls s)\<rparr>)"

definition configStream :: "CH341SPI \<Rightarrow> bool \<times> CH341SPI" where
  "configStream s =
     (if \<not> device s then (False, s)
      else let cmd = [CMD_I2C_STREAM, CMD_I2C_STM_SET OR 0x01, CMD_I2C_STM_END];
               (r, s1) = bulk_write s cmd
           in if ret r \<noteq> 0 \<or> transferred r \<noteq> int (length cmd) then (False, s1) else (True, s1))"

definition enablePins :: "bool \<Rightarrow> CH341SPI \<Rightarrow> bool \<times> CH341SPI" where
  "enablePins enable s =
     (if \<not> device s then (False, s)
      else let cmd = [CMD_UIO_STREAM, CMD_UIO_STM_OUT OR 0x37, CMD_UIO_STM_OUT OR 0x37,
                      CMD_UIO_STM_OUT OR 0x37,
                      CMD_UIO_STM_DIR OR (if enable then 0x3F else 0x00), CMD_UIO_STM_END];
               (r, s1) = bulk_write s cmd
           in if ret r \<noteq> 0 \<or> transferred r \<noteq> int (length cmd) then (False, s1) else (True, s1))"

definition CH341SPI_close :: "CH341SPI \<Rightarrow> CH341SPI" where
  "CH341SPI_close s = (if device s then (snd (enablePins False s))\<lparr>device := False\<rparr> else s)"

definition is_ch341 :: "usb_descriptor \<Rightarrow> bool" where
  "is_ch341 d \<longleftrightarrow> \<not> descriptor_ret d < 0 \<and> idVendor d = VENDOR_ID \<and> idProduct d = PRODUCT_ID"

definition CH341SPI_open :: "CH341SPI \<Rightarrow> bool \<times> CH341SPI" where
  "CH341SPI_open s =
     (if \<not> usb_context s then (False, s)
      else case device_list (host s) of
        None \<Rightarrow> (False, s)
      | Some lst \<Rightarrow>
          let ch341_devices = filter is_ch341 lst in
          if ch341_devices = [] then (False, s)
          else if device_index s \<ge> length ch341_devices then (False, s)
          else if open_ret (host s) \<noteq> 0 then (False, s)
          else let s1 = s\<lparr>device := True\<rparr> in
          if set_configuration_ret (host s) \<noteq> 0 then (False, s1\<lparr>device := False\<rparr>)
          else if claim_interface_ret (host s) \<noteq> 0 then (False, s1\<lparr>device := False\<rparr>)
          else let (ok, s2) = configStream s1 in
          if \<not> ok then (False, CH341SPI_close s2)
          else let (ok, s3) = enablePins True s2 in
          if \<not> ok then (False, CH341SPI_close s3)
          else (True, s3))"

definition CH341SPI_isActive :: "CH341SPI \<Rightarrow> bool" where
  "CH341SPI_isActive s = is_open s"

text \<open>\<open>swapBits\<close>: the loop over the eight bit positions, \<open>result\<close> as accumulator.\<close>

definition swapBits :: "u8 \<Rightarrow> u8" where
  "swapBits byte =
     fold (\<lambda>i result. if byte AND push_bit i 1 \<noteq> 0 then result OR push_bit (7 - i) 1 else result)
       [0..<8] 0"

text \<open>
  The first loop of \<open>transfer\<close>: one SPI-stream command per byte of \<open>write_data\<close>, and one
  read of the echoed byte, which is discarded. The boolean is false when a bulk transfer
  failed and the function returned from inside the loop.
\<close>

fun write_loop :: "CH341SPI \<Rightarrow> u8 list \<Rightarrow> bool \<times> CH341SPI" where
  "write_loop s [] = (True, s)"
| "write_loop s (b # bs) =
     (let (r, s1) = bulk_write s [CMD_SPI_STREAM, if lsb_first s then swapBits b else b] in
      if ret r \<noteq> 0 then (False, s1)
      else let (r2, s2) = bulk_read s1 in
      if ret r2 \<noteq> 0 then (False, s2)
      else write_loop s2 bs)"

text \<open>
  The second loop: one dummy byte \<open>0xFF\<close> out and one byte in per requested byte, the byte
  appended to \<open>result\<close>. On a failed bulk transfer the function returns \<open>result\<close> as it
  is at that moment.
\<close>

fun read_loop :: "CH341SPI \<Rightarrow> nat \<Rightarrow> u8 list \<Rightarrow> bool \<times> u8 list \<times> CH341SPI" where
  "read_loop s 0 result = (True, result, s)"
| "read_loop s (Suc n) result =
     (let (r, s1) = bulk_write s [CMD_SPI_STREAM, 0xFF] in
      if ret r \<noteq> 0 then (False, result, s1)
      else let (r2, s2) = bulk_read s1 in
      if ret r2 \<noteq> 0 then (False, result, s2)
      else read_loop s2 n
             (result @ [if lsb_first s then swapBits (rx_byte r2) else rx_byte r2]))"

definition CH341SPI_transfer :: "CH341SPI \<Rightarrow> u8 list \<Rightarrow> nat \<Rightarrow> u8 list \<times> CH341SPI" where
  "CH341SPI_transfer s write_data read_length =
     (let result = [] in
      if \<not> device s then (result, s)
      else let cs_low = [CMD_UIO_STREAM, CMD_UIO_STM_OUT OR 0x36, CMD_UIO_STM_END];
               (r, s1) = bulk_write s cs_low in
      if ret r \<noteq> 0 then (result, s1)
      else let (ok, s2) = write_loop s1 write_data in
      if \<not> ok then (result, s2)
      else let (ok, result, s3) = read_loop s2 read_length result in
      if \<not> ok then (result, s3)
      else let cs_high = [CMD_UIO_STREAM, CMD_UIO_STM_OUT OR 0x37, CMD_UIO_STM_END];
               (r, s4) = bulk_write s3 cs_high in
      (result, s4))"

section \<open>Hosts used in examples\<close>

text \<open>
  A host with one bridge chip attached, on which every libusb call succeeds and every byte
  read from the bridge is \<open>b\<close>, except that the bulk transfers whose numbers are listed in
  \<open>failing\<close> return the error code \<open>-1\<close> and move nothing.
\<close>

definition ok_bulk :: "u8 \<Rightarrow> nat \<Rightarrow> bulk_result" where
  "ok_bulk b len = \<lparr>ret = 0, transferred = int len, rx_byte = b\<rparr>"

definition failed_bulk :: bulk_result where
  "failed_bulk = \<lparr>ret = - 1, transferred = 0, rx_byte = 0\<rparr>"

definition host_failing_at :: "u8 \<Rightarrow> nat list \<Rightarrow> usb_host" where
  "host_failing_at b failing =
     \<lparr>init_ret = 0,
      device_list = Some [\<lparr>descriptor_ret = 0, idVendor = VENDOR_ID, idProduct = PRODUCT_ID\<rparr>],
      open_ret = 0, set_configuration_ret = 0, claim_interface_ret = 0,
      bulk = (\<lambda>k len. if k \<in> set failing then failed_bulk else ok_bulk b len)\<rparr>"

section \<open>SPIInterface.hpp: the transport contract\<close>

text \<open>
  The abstract class \<open>SPIInterface\<close> is a record of its virtual functions over the state
  \<open>'s\<close> of the object that implements it. Only the operations used by the radio driver
  are kept.
\<close>

record 's SPIInterface =
  spi_open :: "'s \<Rightarrow> bool \<times> 's"
  spi_close :: "'s \<Rightarrow> 's"
  spi_transfer :: "'s \<Rightarrow> u8 list \<Rightarrow> nat \<Rightarrow> u8 list \<times> 's"
  spi_isActive :: "'s \<Rightarrow> bool"

definition CH341SPI_bus :: "CH341SPI SPIInterface" where
  "CH341SPI_bus =
     \<lparr>spi_open = CH341SPI_open, spi_close = CH341SPI_close,
      spi_transfer = CH341SPI_transfer, spi_isActive = CH341SPI_isActive\<rparr>"

section \<open>RFM95.hpp: register addresses and masks\<close>

definition REG_FIFO :: u8 where "REG_FIFO = 0x00"
definition REG_OP_MODE :: u8 where "REG_OP_MODE = 0x01"
definition REG_FRF_MSB :: u8 where "REG_FRF_MSB = 0x06"
definition REG_FRF_MID :: u8 where "REG_FRF_MID = 0x07"
definition REG_FRF_LSB :: u8 where "REG_FRF_LSB = 0x08"
definition REG_PA_CONFIG :: u8 where "REG_PA_CONFIG = 0x09"
definition REG_LNA :: u8 where "REG_LNA = 0x0C"
definition REG_FIFO_ADDR_PTR :: u8 where "REG_FIFO_ADDR_PTR = 0x0D"
definition REG_FIFO_TX_BASE_ADDR :: u8 where "REG_FIFO_TX_BASE_ADDR = 0x0E"
definition REG_FIFO_RX_BASE_ADDR :: u8 where "REG_FIFO_RX_BASE_ADDR = 0x0F"
definition REG_FIFO_RX_CURRENT_ADDR :: u8 where "REG_FIFO_RX_CURRENT_ADDR = 0x10"
definition REG_IRQ_FLAGS_MASK :: u8 where "REG_IRQ_FLAGS_MASK = 0x11"
definition REG_IRQ_FLAGS :: u8 where "REG_IRQ_FLAGS = 0x12"
definition REG_RX_NB_BYTES :: u8 where "REG_RX_NB_BYTES = 0x13"
definition REG_MODEM_CONFIG_1 :: u8 where "REG_MODEM_CONFIG_1 = 0x1D"
definition REG_MODEM_CONFIG_2 :: u8 where "REG_MODEM_CONFIG_2 = 0x1E"
definition REG_PAYLOAD_LENGTH :: u8 where "REG_PAYLOAD_LENGTH = 0x22"
definition REG_MODEM_CONFIG_3 :: u8 where "REG_MODEM_CONFIG_3 = 0x26"
definition REG_INVERTIQ :: u8 where "REG_INVERTIQ = 0x33"
definition REG_INVERTIQ2 :: u8 where "REG_INVERTIQ2 = 0x3B"
definition REG_DIO_MAPPING_1 :: u8 where "REG_DIO_MAPPING_1 = 0x40"
definition REG_DIO_MAPPING_2 :: u8 where "REG_DIO_MAPPING_2 = 0x41"
definition REG_VERSION :: u8 where "REG_VERSION = 0x42"
definition REG_PA_DAC :: u8 where "REG_PA_DAC = 0x4D"

definition MODE_SLEEP :: u8 where "MODE_SLEEP = 0x00"
definition MODE_STDBY :: u8 where "MODE_STDBY = 0x01"
definition MODE_TX :: u8 where "MODE_TX = 0x03"
definition MODE_RX_CONTINUOUS :: u8 where "MODE_RX_CONTINUOUS = 0x05"

definition PA_BOOST :: u8 where "PA_BOOST = 0x80"

definition IRQ_TX_DONE_MASK :: u8 where "IRQ_TX_DONE_MASK = 0x08"
definition IRQ_PAYLOAD_CRC_ERROR_MASK :: u8 where "IRQ_PAYLOAD_CRC_ERROR_MASK = 0x20"
definition IRQ_RX_DONE_MASK :: u8 where "IRQ_RX_DONE_MASK = 0x40"

section \<open>RFM95.cpp: the radio driver\<close>

text \<open>
  The driver owns the transport object \<open>spi\<close>. It also reads the steady clock and sleeps;
  \<open>clock\<close> is the steady clock in milliseconds. \<open>sleep_for\<close> advances it by the time
  asked for; register transfers are taken to cost no clock time.
\<close>

record 's machine =
  spi :: 's
  clock :: nat

definition sleep_for :: "nat \<Rightarrow> 's machine \<Rightarrow> 's machine" where
  "sleep_for ms m = m\<lparr>clock := clock m + ms\<rparr>"

definition readRegister :: "'s SPIInterface \<Rightarrow> u8 \<Rightarrow> 's machine \<Rightarrow> u8 \<times> 's machine" where
  "readRegister bus address m =
     (let cmd = [address AND 0x7F];
          (response, t) = spi_transfer bus (spi m) cmd 1
      in (if response \<noteq> [] then hd response else 0, m\<lparr>spi := t\<rparr>))"

definition writeRegister :: "'s SPIInterface \<Rightarrow> u8 \<Rightarrow> u8 \<Rightarrow> 's machine \<Rightarrow> 's machine" where
  "writeRegister bus address v m =
     (let cmd = [address OR 0x80, v];
          (response, t) = spi_transfer bus (spi m) cmd 0
      in m\<lparr>spi := t\<rparr>)"

definition readVersionRegister :: "'s SPIInterface \<Rightarrow> 's machine \<Rightarrow> u8 \<times> 's machine" where
  "readVersionRegister bus m =
     (let (response, t) = spi_transfer bus (spi m) [0x42] 1
      in (if response \<noteq> [] then hd response else 0, m\<lparr>spi := t\<rparr>))"

definition standbyMode :: "'s SPIInterface \<Rightarrow> 's machine \<Rightarrow> 's machine" where
  "standbyMode bus m = writeRegister bus REG_OP_MODE MODE_STDBY m"

definition sleepMode :: "'s SPIInterface \<Rightarrow> 's machine \<Rightarrow> 's machine" where
  "sleepMode bus m =
     (let (current, m) = readRegister bus REG_OP_MODE m;
          m = writeRegister bus REG_OP_MODE ((current AND 0xF8) OR MODE_SLEEP) m
      in sleep_for 10 m)"

definition RFM95_begin :: "'s SPIInterface \<Rightarrow> 's machine \<Rightarrow> bool \<times> 's machine" where
  "RFM95_begin bus m =
     (let (opened, t) = spi_open bus (spi m);
          m = m\<lparr>spi := t\<rparr>
      in if \<not> opened then (False, m)
      else let m = sleepMode bus m;
               m = sleep_for 10 m;
               (version, m) = readVersionRegister bus m
      in if version \<noteq> 0x12 then (False, m)
      else let m = writeRegister bus REG_OP_MODE 0x80 m;
               m = sleep_for 10 m;
               m = writeRegister bus REG_FIFO_TX_BASE_ADDR 0 m;
               m = writeRegister bus REG_FIFO_RX_BASE_ADDR 0 m;
               m = writeRegister bus REG_MODEM_CONFIG_1 0x72 m;
               m = writeRegister bus REG_MODEM_CONFIG_2 0x70 m;
               m = writeRegister bus REG_MODEM_CONFIG_3 0x04 m;
               m = writeRegister bus REG_PA_CONFIG 0x8F m;
               m = writeRegister bus REG_PA_DAC 0x87 m;
               m = writeRegister bus REG_LNA 0x23 m;
               m = writeRegister bus REG_FIFO_ADDR_PTR 0 m;
               m = standbyMode bus m;
               m = sleep_for 10 m
      in (True, m))"

subsection \<open>Frequency\<close>

text \<open>
  A finite \<open>float\<close> is a mantissa of at most 24 bits and a binary exponent; its value is
  \<open>mant * 2 ^ expo\<close>. \<open>setFrequency\<close> computes \<open>(freq_mhz * 524288.0) / 32.0\<close> in
  \<open>double\<close>: both operations scale by a power of two, so for a \<open>float\<close> argument the
  \<open>double\<close> result is the exact product. The cast to \<open>uint32_t\<close> truncates towards
  zero; it is defined when the truncated value fits 32 bits.
\<close>

record f32 =
  mant :: int
  expo :: int

definition f32_ok :: "f32 \<Rightarrow> bool" where
  "f32_ok x \<longleftrightarrow> \<bar>mant x\<bar> < 2 ^ 24 \<and> - 149 \<le> expo x \<and> expo x \<le> 104"

definition f32_val :: "f32 \<Rightarrow> real" where
  "f32_val x = of_int (mant x) * 2 powi (expo x)"

definition trunc :: "real \<Rightarrow> int" where
  "trunc x = (if 0 \<le> x then \<lfloor>x\<rfloor> else \<lceil>x\<rceil>)"

definition frf_of :: "f32 \<Rightarrow> u32" where
  "frf_of freq_mhz = word_of_int (trunc ((f32_val freq_mhz * 524288) / 32))"

text \<open>
  The synthesizer word as the specification words it, to compare with \<open>frf_of\<close>:
  \<open>round(frequency_MHz * 2^19 / 32)\<close>.
\<close>

definition frf_rounded :: "f32 \<Rightarrow> int" where
  "frf_rounded freq_mhz = round (f32_val freq_mhz * 2 ^ 19 / 32)"

definition setFrequency :: "'s SPIInterface \<Rightarrow> f32 \<Rightarrow> 's machine \<Rightarrow> 's machine" where
  "setFrequency bus freq_mhz m =
     (let frf = frf_of freq_mhz;
          m = writeRegister bus REG_FRF_MSB (ucast (drop_bit 16 frf AND 0xFF)) m;
          m = writeRegister bus REG_FRF_MID (ucast (drop_bit 8 frf AND 0xFF)) m;
          m = writeRegister bus REG_FRF_LSB (ucast (frf AND 0xFF)) m
      in m)"

text \<open>
  \<open>getFrequency\<close> returns \<open>(frf * 32.0) / 524288.0\<close> converted to \<open>float\<close>. \<open>frf\<close> is
  built from three bytes, so it has at most 24 significant bits and the quotient is a
  \<open>float\<close> value: the conversion does not round, and the result is given here as the
  exact number.
\<close>

definition getFrequency :: "'s SPIInterface \<Rightarrow> 's machine \<Rightarrow> real \<times> 's machine" where
  "getFrequency bus m =
     (let (b2, m) = readRegister bus REG_FRF_MSB m;
          (b1, m) = readRegister bus REG_FRF_MID m;
          (b0, m) = readRegister bus REG_FRF_LSB m;
          msb = (ucast b2 :: u32);
          mid = (ucast b1 :: u32);
          lsb = (ucast b0 :: u32);
          frf = push_bit 16 msb OR push_bit 8 mid OR lsb
      in ((real (unat frf) * 32) / 524288, m))"

subsection \<open>Transmit power\<close>

text \<open>
  \<open>level\<close> is an \<open>int\<close>; the value handed to \<open>writeRegister\<close> is narrowed to eight bits.
\<close>

definition setTxPower :: "'s SPIInterface \<Rightarrow> int \<Rightarrow> bool \<Rightarrow> 's machine \<Rightarrow> 's machine" where
  "setTxPower bus level use_pa_boost m =
     (if use_pa_boost then
        let level = max 2 (min level 20)
        in writeRegister bus REG_PA_CONFIG (word_of_int (uint PA_BOOST OR (level - 2))) m
      else
        let level = max 0 (min level 15)
        in writeRegister bus REG_PA_CONFIG (word_of_int level) m)"

definition getTxPower :: "'s SPIInterface \<Rightarrow> 's machine \<Rightarrow> int \<times> 's machine" where
  "getTxPower bus m =
     (let (pa, m) = readRegister bus REG_PA_CONFIG m
      in if pa AND PA_BOOST \<noteq> 0 then (uint (pa AND 0x0F) + 2, m)
         else (uint (pa AND 0x0F), m))"

subsection \<open>Bandwidth\<close>

text \<open>
  The table \<open>bws\<close> is an array of \<open>float\<close>: each entry is the \<open>float\<close> nearest to the
  decimal written in the source (\<open>7.8\<close> is stored as \<open>8178893 * 2 ^ -20\<close>, and so on).
\<close>

definition bws :: "f32 list" where
  "bws = [\<lparr>mant = 8178893, expo = - 20\<rparr>, \<lparr>mant = 5452595, expo = - 19\<rparr>,
          \<lparr>mant = 8178893, expo = - 19\<rparr>, \<lparr>mant = 5452595, expo = - 18\<rparr>,
          \<lparr>mant = 125, expo = - 2\<rparr>, \<lparr>mant = 10931405, expo = - 18\<rparr>,
          \<lparr>mant = 125, expo = - 1\<rparr>, \<lparr>mant = 125, expo = 0\<rparr>,
          \<lparr>mant = 250, expo = 0\<rparr>, \<lparr>mant = 500, expo = 0\<rparr>]"

text \<open>The loop \<open>for (i = 0; i < 10; i++)\<close> with its \<open>break\<close>, from index \<open>i\<close> on.\<close>

function bw_loop :: "f32 \<Rightarrow> nat \<Rightarrow> u8 \<Rightarrow> u8" where
  "bw_loop bw_khz i bw_value =
     (if i < 10 then
        (if f32_val bw_khz \<le> f32_val (bws ! i) then of_nat i
         else bw_loop bw_khz (Suc i) bw_value)
      else bw_value)"
  by pat_completeness auto
termination
  by (relation "measure (\<lambda>(bw_khz, i, bw_value). 10 - i)") auto

declare bw_loop.simps [simp del]

text \<open>
  The selection as the specification words it, to compare with the loop: the smallest
  index of the table whose value is at or above the request, and 9 (the largest entry)
  when no value qualifies.
\<close>

definition smallest_index_at_or_above :: "f32 \<Rightarrow> nat" where
  "smallest_index_at_or_above bw_khz =
     (if \<exists>i<10. f32_val bw_khz \<le> f32_val (bws ! i)
      then LEAST i. i < 10 \<and> f32_val bw_khz \<le> f32_val (bws ! i)
      else 9)"

definition setBandwidth :: "'s SPIInterface \<Rightarrow> f32 \<Rightarrow> 's machine \<Rightarrow> 's machine" where
  "setBandwidth bus bw_khz m =
     (let bw_value = bw_loop bw_khz 0 9;
          (reg1, m) = readRegister bus REG_MODEM_CONFIG_1 m;
          reg1 = (reg1 AND 0x0F) OR push_bit 4 bw_value
      in writeRegister bus REG_MODEM_CONFIG_1 reg1 m)"

subsection \<open>IQ inversion and DIO mapping\<close>

definition setInvertIQ :: "'s SPIInterface \<Rightarrow> bool \<Rightarrow> 's machine \<Rightarrow> 's machine" where
  "setInvertIQ bus invert m =
     (if invert then
        let m = writeRegister bus REG_INVERTIQ 0x66 m
        in writeRegister bus REG_INVERTIQ2 0x19 m
      else
        let m = writeRegister bus REG_INVERTIQ 0x27 m
        in writeRegister bus REG_INVERTIQ2 0x1D m)"

definition setDIOMapping :: "'s SPIInterface \<Rightarrow> u8 \<Rightarrow> u8 \<Rightarrow> 's machine \<Rightarrow> 's machine" where
  "setDIOMapping bus dio3 dio4 m =
     (let (dio_map1, m) = readRegister bus REG_DIO_MAPPING_1 m;
          dio_map1 = (dio_map1 AND 0x3F) OR (dio3 AND 0xC0);
          m = writeRegister bus REG_DIO_MAPPING_1 dio_map1 m;
          (dio_map2, m) = readRegister bus REG_DIO_MAPPING_2 m;
          dio_map2 = (dio_map2 AND 0x3F) OR (dio4 AND 0xC0);
          m = writeRegister bus REG_DIO_MAPPING_2 dio_map2 m;
          m = writeRegister bus REG_IRQ_FLAGS_MASK 0x00 m
      in writeRegister bus REG_IRQ_FLAGS 0xFF m)"

subsection \<open>Transmit\<close>

text \<open>
  The polling loop of \<open>send\<close>. Every iteration that does not return sleeps one
  millisecond, so the loop ends at the latest when more than 2000 ms have passed.
\<close>

function send_wait :: "'s SPIInterface \<Rightarrow> bool \<Rightarrow> nat \<Rightarrow> 's machine \<Rightarrow> bool \<times> 's machine" where
  "send_wait bus invert_iq start m =
     (let (flags, m) = readRegister bus REG_IRQ_FLAGS m in
      if flags AND IRQ_TX_DONE_MASK \<noteq> 0 then
        (let m = writeRegister bus REG_IRQ_FLAGS 0xFF m;
             m = standbyMode bus m;
             m = (if invert_iq then setInvertIQ bus False m else m)
         in (True, m))
      else
        let now = clock m in
        if int now - int start > 2000 then
          (let m = (if invert_iq then setInvertIQ bus False m else m)
           in (False, m))
        else send_wait bus invert_iq start (sleep_for 1 m))"
  by pat_completeness auto
termination
  by (relation "measure (\<lambda>(bus, invert_iq, start, m). 2001 + start - clock m)")
     (auto simp: readRegister_def sleep_for_def Let_def split: prod.splits)

declare send_wait.simps [simp del]

definition send :: "'s SPIInterface \<Rightarrow> u8 list \<Rightarrow> bool \<Rightarrow> 's machine \<Rightarrow> bool \<times> 's machine" where
  "send bus data invert_iq m =
     (if length data > 255 then (False, m)
      else
        let m = setInvertIQ bus invert_iq m;
            m = setDIOMapping bus 0x40 0x40 m;
            m = standbyMode bus m;
            m = sleep_for 1 m;
            (current, m) = readRegister bus REG_DIO_MAPPING_1 m;
            m = writeRegister bus REG_DIO_MAPPING_1 ((current AND 0x3F) OR 0x40) m;
            m = writeRegister bus REG_IRQ_FLAGS 0xFF m;
            m = writeRegister bus REG_FIFO_ADDR_PTR 0 m;
            m = fold (\<lambda>byte. writeRegister bus REG_FIFO byte) data m;
            m = writeRegister bus REG_PAYLOAD_LENGTH (of_nat (length data)) m;
            m = writeRegister bus REG_OP_MODE MODE_TX m;
            start = clock m
        in send_wait bus invert_iq start m)"

subsection \<open>Receive\<close>

text \<open>The loop \<open>for (i = 0; i < length; i++) data.push_back(readRegister(REG_FIFO))\<close>.\<close>

fun read_fifo :: "'s SPIInterface \<Rightarrow> nat \<Rightarrow> u8 list \<Rightarrow> 's machine \<Rightarrow> u8 list \<times> 's machine" where
  "read_fifo bus 0 data m = (data, m)"
| "read_fifo bus (Suc n) data m =
     (let (b, m) = readRegister bus REG_FIFO m in read_fifo bus n (data @ [b]) m)"

text \<open>
  One pass through the body of the polling loop of \<open>receive\<close>, up to the point where it
  returns the packet, executes \<open>continue\<close>, or falls through to the timeout check.
\<close>

datatype 's poll =
  Return_packet "u8 list" "'s machine"
| Continue "'s machine"
| Fall_through "'s machine"

definition receive_poll :: "'s SPIInterface \<Rightarrow> bool \<Rightarrow> 's machine \<Rightarrow> 's poll" where
  "receive_poll bus invert_iq m =
     (let (irq_flags, m) = readRegister bus REG_IRQ_FLAGS m in
      if irq_flags \<noteq> 0 then
        if irq_flags AND IRQ_RX_DONE_MASK \<noteq> 0 then
          if irq_flags AND IRQ_PAYLOAD_CRC_ERROR_MASK \<noteq> 0 then
            Continue (writeRegister bus REG_IRQ_FLAGS 0xFF m)
          else
            let (len, m) = readRegister bus REG_RX_NB_BYTES m in
            if len > 0 then
              let (current_addr, m) = readRegister bus REG_FIFO_RX_CURRENT_ADDR m;
                  m = writeRegister bus REG_FIFO_ADDR_PTR current_addr m;
                  (data, m) = read_fifo bus (unat len) [] m;
                  m = writeRegister bus REG_IRQ_FLAGS 0xFF m;
                  m = (if invert_iq then setInvertIQ bus False m else m)
              in Return_packet data m
            else Fall_through m
        else Fall_through m
      else Fall_through m)"

text \<open>
  The statements of that body from the read of the byte count to the \<open>return data\<close>,
  as one function of the state after the flags were read (used to state what a clean
  poll returns; \<open>receive_poll\<close> above is the source's order).
\<close>

definition read_packet :: "'s SPIInterface \<Rightarrow> bool \<Rightarrow> 's machine \<Rightarrow> u8 list \<times> 's machine" where
  "read_packet bus invert_iq m1 =
     (let (len, m) = readRegister bus REG_RX_NB_BYTES m1;
          (current_addr, m) = readRegister bus REG_FIFO_RX_CURRENT_ADDR m;
          m = writeRegister bus REG_FIFO_ADDR_PTR current_addr m;
          (data, m) = read_fifo bus (unat len) [] m;
          m = writeRegister bus REG_IRQ_FLAGS 0xFF m;
          m = (if invert_iq then setInvertIQ bus False m else m)
      in (data, m))"

text \<open>
  The loop itself. The \<open>continue\<close> after a CRC error skips both the timeout check and the
  sleep, so the loop need not end: the result is \<open>None\<close> when it runs forever.
  \<open>timeout\<close> is the argument in seconds; the comparison \<open>count() > timeout * 1000\<close> is made
  on the exact values.
\<close>

partial_function (option) receive_wait ::
  "'s SPIInterface \<Rightarrow> bool \<Rightarrow> real \<Rightarrow> nat \<Rightarrow> 's machine \<Rightarrow> (u8 list \<times> 's machine) option" where
  "receive_wait bus invert_iq timeout start_time m =
     (case receive_poll bus invert_iq m of
        Return_packet data m \<Rightarrow> Some (data, m)
      | Continue m \<Rightarrow> receive_wait bus invert_iq timeout start_time m
      | Fall_through m \<Rightarrow>
          if real_of_int (int (clock m) - int start_time) > timeout * 1000 then
            (let m = writeRegister bus REG_IRQ_FLAGS 0xFF m;
                 m = (if invert_iq then setInvertIQ bus False m else m)
             in Some ([], m))
          else receive_wait bus invert_iq timeout start_time (sleep_for 1 m))"

declare receive_wait.simps [code]

definition receive ::
  "'s SPIInterface \<Rightarrow> real \<Rightarrow> bool \<Rightarrow> 's machine \<Rightarrow> (u8 list \<times> 's machine) option" where
  "receive bus timeout invert_iq m =
     (let m = setInvertIQ bus invert_iq m;
          m = writeRegister bus REG_OP_MODE MODE_RX_CONTINUOUS m;
          m = setDIOMapping bus 0x40 0xC0 m;
          m = writeRegister bus REG_IRQ_FLAGS 0xFF m;
          start_time = clock m
      in receive_wait bus invert_iq timeout start_time m)"

section \<open>Devices that hold their registers\<close>

text \<open>
  What "register writes read back unchanged" means for a transport, for the registers
  whose addresses are in \<open>A\<close>: \<open>regs t\<close> is the content of the registers in the transport
  state \<open>t\<close>; a write command to an address of \<open>A\<close> stores the byte, a read command
  returns the content, and a transfer whose command does not start with the write
  command byte of an address leaves that register as it is. Nothing is asked of the
  other registers.
\<close>

definition holds_registers :: "'s SPIInterface \<Rightarrow> ('s \<Rightarrow> u8 \<Rightarrow> u8) \<Rightarrow> u8 set \<Rightarrow> bool" where
  "holds_registers bus regs A \<longleftrightarrow>
     (\<forall>t a v. a \<in> A \<longrightarrow> regs (snd (spi_transfer bus t [a OR 0x80, v] 0)) a = v) \<and>
     (\<forall>t a. a \<in> A \<longrightarrow> fst (spi_transfer bus t [a AND 0x7F] 1) = [regs t a]) \<and>
     (\<forall>t c n a. a \<in> A \<longrightarrow> take 1 c \<noteq> [a OR 0x80] \<longrightarrow>
        regs (snd (spi_transfer bus t c n)) a = regs t a)"

text \<open>
  The IQ registers hold the non-inverted pair of constants; and two machine states agree
  on the IQ registers.
\<close>

definition iq_normal :: "('s \<Rightarrow> u8 \<Rightarrow> u8) \<Rightarrow> 's machine \<Rightarrow> bool" where
  "iq_normal regs m \<longleftrightarrow>
     regs (spi m) REG_INVERTIQ = 0x27 \<and> regs (spi m) REG_INVERTIQ2 = 0x1D"

definition same_iq :: "('s \<Rightarrow> u8 \<Rightarrow> u8) \<Rightarrow> 's machine \<Rightarrow> 's machine \<Rightarrow> bool" where
  "same_iq regs m m' \<longleftrightarrow>
     regs (spi m') REG_INVERTIQ = regs (spi m) REG_INVERTIQ \<and>
     regs (spi m') REG_INVERTIQ2 = regs (spi m) REG_INVERTIQ2"

section \<open>Transports used in examples\<close>

text \<open>
  A plain register file: a write command (bit 7 of the first byte set) stores the second
  byte at the address, a read command returns the byte stored there.
\<close>

fun regfile_transfer :: "(u8 \<Rightarrow> u8) \<Rightarrow> u8 list \<Rightarrow> nat \<Rightarrow> u8 list \<times> (u8 \<Rightarrow> u8)" where
  "regfile_transfer r [] n = ([], r)"
| "regfile_transfer r [a] n = (if bit a 7 then ([], r) else (replicate n (r a), r))"
| "regfile_transfer r (a # v # vs) n =
     (if bit a 7 then ([], r(a AND 0x7F := v)) else (replicate n (r a), r))"

definition regfile_bus :: "(u8 \<Rightarrow> u8) SPIInterface" where
  "regfile_bus =
     \<lparr>spi_open = (\<lambda>r. (True, r)), spi_close = (\<lambda>r. r),
      spi_transfer = regfile_transfer, spi_isActive = (\<lambda>r. True)\<rparr>"

text \<open>
  A read-only device: a read command returns the byte \<open>f a\<close> for the address \<open>a\<close>,
  whatever has been written.
\<close>

definition fixed_bus :: "(u8 \<Rightarrow> u8) \<Rightarrow> unit SPIInterface" where
  "fixed_bus f =
     \<lparr>spi_open = (\<lambda>t. (True, t)), spi_close = (\<lambda>t. t),
      spi_transfer = (\<lambda>t c n. (case c of [] \<Rightarrow> [] | a # vs \<Rightarrow> replicate n (f a), t)),
      spi_isActive = (\<lambda>t. True)\<rparr>"

text \<open>
  A scripted transport: each transfer that asks for bytes takes the next reply of the
  script (the empty reply when the script is exhausted, which is how a transport reports
  failure); a transfer that asks for no byte returns none. Every command is recorded.
\<close>

record scripted =
  replies :: "u8 list list"
  received :: "u8 list list"

definition scripted_transfer :: "scripted \<Rightarrow> u8 list \<Rightarrow> nat \<Rightarrow> u8 list \<times> scripted" where
  "scripted_transfer t c n =
     (if n = 0 then ([], t\<lparr>received := received t @ [c]\<rparr>)
      else case replies t of
             [] \<Rightarrow> ([], t\<lparr>received := received t @ [c]\<rparr>)
           | r # rs \<Rightarrow> (r, t\<lparr>replies := rs, received := received t @ [c]\<rparr>))"

definition scripted_bus :: "scripted SPIInterface" where
  "scripted_bus =
     \<lparr>spi_open = (\<lambda>t. (True, t)), spi_close = (\<lambda>t. t),
      spi_transfer = scripted_transfer, spi_isActive = (\<lambda>t. True)\<rparr>"

section \<open>Properties of the bridge driver\<close>

lemmas CH341Config_defs =
  VENDOR_ID_def PRODUCT_ID_def CMD_SPI_STREAM_def CMD_UIO_STREAM_def CMD_UIO_STM_OUT_def
  CMD_UIO_STM_DIR_def CMD_UIO_STM_END_def CMD_I2C_STREAM_def CMD_I2C_STM_SET_def
  CMD_I2C_STM_END_def

lemmas RFM95_consts =
  REG_FIFO_def REG_OP_MODE_def REG_FRF_MSB_def REG_FRF_MID_def REG_FRF_LSB_def
  REG_PA_CONFIG_def REG_LNA_def REG_FIFO_ADDR_PTR_def REG_FIFO_TX_BASE_ADDR_def
  REG_FIFO_RX_BASE_ADDR_def REG_FIFO_RX_CURRENT_ADDR_def REG_IRQ_FLAGS_MASK_def
  REG_IRQ_FLAGS_def REG_RX_NB_BYTES_def REG_MODEM_CONFIG_1_def REG_MODEM_CONFIG_2_def
  REG_PAYLOAD_LENGTH_def REG_MODEM_CONFIG_3_def REG_INVERTIQ_def REG_INVERTIQ2_def
  REG_DIO_MAPPING_1_def REG_DIO_MAPPING_2_def REG_VERSION_def REG_PA_DAC_def
  MODE_SLEEP_def MODE_STDBY_def MODE_TX_def MODE_RX_CONTINUOUS_def PA_BOOST_def
  IRQ_TX_DONE_MASK_def IRQ_PAYLOAD_CRC_ERROR_MASK_def IRQ_RX_DONE_MASK_def

lemma is_open_bulk_write [simp]: "is_open (snd (bulk_write s pkt)) = is_open s"
  by (simp add: bulk_write_def)

lemma is_open_configStream [simp]: "is_open (snd (configStream s)) = is_open s"
  by (simp add: configStream_def bulk_write_def Let_def split: prod.splits)

lemma is_open_enablePins [simp]: "is_open (snd (enablePins e s)) = is_open s"
  by (simp add: enablePins_def bulk_write_def Let_def split: prod.splits)

lemma is_open_close [simp]: "is_open (CH341SPI_close s) = is_open s"
  by (simp add: CH341SPI_close_def)

lemma is_open_CH341SPI_open: "is_open (snd (CH341SPI_open s)) = is_open s"
proof -
  have c: "is_open s2 = is_open t" if "configStream t = (ok, s2)" for t ok s2
    using is_open_configStream [of t] that by simp
  have e: "is_open s3 = is_open t" if "enablePins b t = (ok, s3)" for b t ok s3
    using is_open_enablePins [of b t] that by simp
  show ?thesis
    by (auto simp: CH341SPI_open_def Let_def dest!: c e split: option.splits prod.splits)
qed

text \<open>
  Claim C1. If any bulk transfer of an exchange fails, \<open>transfer\<close> returns the empty
  sequence. The code returns \<open>result\<close> at every failure, and \<open>result\<close> is not empty
  once the read phase has stored a byte. On a host where every bulk transfer succeeds and
  delivers \<open>0x12\<close>, except transfer number 7, the exchange \<open>transfer({0x01}, 2)\<close> after
  \<open>open\<close> (which uses transfers 0 and 1) fails at the dummy write of the second
  requested byte and returns the one byte read so far.
\<close>

theorem transfer_read_failure_returns_partial_result:
  "let s = snd (CH341SPI_open (CH341SPI_new (host_failing_at 0x12 [7]) 0 False False));
       (result, s') = CH341SPI_transfer s [0x01] 2
   in device s \<and> calls s = 2 \<and> ret (bulk (host s) 7 2) = - 1 \<and> calls s' = 8 \<and>
      result = [0x12]"
  by code_simp

text \<open>
  Claim C5. \<open>isActive\<close> is true in every state after a successful \<open>open\<close> and before
  \<open>close\<close>. The code returns the member \<open>is_open\<close>, which no function of the class
  assigns (lemmas \<open>is_open_CH341SPI_open\<close> and \<open>is_open_close\<close>). With the member
  starting as \<open>false\<close>, a successful \<open>open\<close> leaves \<open>isActive\<close> false.
\<close>

theorem isActive_false_after_successful_open:
  "let s0 = CH341SPI_new (host_failing_at 0 []) 0 False False;
       (opened, s1) = CH341SPI_open s0
   in opened \<and> device s1 \<and> \<not> CH341SPI_isActive s1"
  by code_simp

section \<open>Properties of the radio driver\<close>

subsection \<open>Bytes and register primitives\<close>

lemma bit_0x7F: "bit (0x7F :: int) n \<longleftrightarrow> n < 7"
proof -
  have "(0x7F :: int) = mask 7" by (simp add: mask_eq_exp_minus_1)
  then show ?thesis by (simp only: bit_mask_iff) auto
qed

lemma bit_0x80: "bit (0x80 :: int) n \<longleftrightarrow> n = 7"
proof -
  have "(0x80 :: int) = push_bit 7 1" by simp
  then show ?thesis by (simp only: bit_push_bit_iff) (auto simp: bit_1_iff)
qed

lemma bit_u8_cases: "bit a n \<Longrightarrow> n < 7 \<or> n = 7" for a :: u8
  using bit_imp_le_length [of a n] by auto

lemma low_address_and: "\<not> bit a 7 \<Longrightarrow> a AND 0x7F = a" for a :: u8
  by (rule bit_word_eqI) (auto simp: bit_and_iff bit_0x7F dest: bit_u8_cases)

lemma or80_and7F: "\<not> bit a 7 \<Longrightarrow> (a OR 0x80) AND 0x7F = a" for a :: u8
  by (rule bit_word_eqI) (auto simp: bit_and_iff bit_or_iff bit_0x7F bit_0x80 dest: bit_u8_cases)

lemma split_bit7: "bit x 7 \<Longrightarrow> x = (x AND 0x7F) OR 0x80" for x :: u8
  by (rule bit_word_eqI) (auto simp: bit_and_iff bit_or_iff bit_0x7F bit_0x80 dest: bit_u8_cases)

lemma bit7_and_0x7F: "\<not> bit (b AND 0x7F) 7" for b :: u8
  by (simp add: bit_and_iff bit_0x7F)

lemma bit7_or_0x80: "bit (a OR 0x80) 7" for a :: u8
  by (simp add: bit_or_iff bit_0x80)

lemma and_0x7F_neq_or_0x80: "b AND 0x7F \<noteq> a OR 0x80" for a b :: u8
  using bit7_and_0x7F [of b] bit7_or_0x80 [of a] by metis

lemma clock_readRegister [simp]: "clock (snd (readRegister bus a m)) = clock m"
  by (simp add: readRegister_def Let_def split: prod.splits)

lemma clock_writeRegister [simp]: "clock (writeRegister bus a v m) = clock m"
  by (simp add: writeRegister_def Let_def split: prod.splits)

lemma spi_sleep_for [simp]: "spi (sleep_for n m) = spi m"
  by (simp add: sleep_for_def)

lemma readRegister_eq:
  "readRegister bus a m =
     (let r = spi_transfer bus (spi m) [a AND 0x7F] 1
      in (if fst r \<noteq> [] then hd (fst r) else 0, m\<lparr>spi := snd r\<rparr>))"
  by (simp add: readRegister_def Let_def split: prod.splits)

lemma writeRegister_eq:
  "writeRegister bus a v m = m\<lparr>spi := snd (spi_transfer bus (spi m) [a OR 0x80, v] 0)\<rparr>"
  by (simp add: writeRegister_def Let_def split: prod.splits)

lemma regs_write_same:
  "holds_registers bus regs A \<Longrightarrow> a \<in> A \<Longrightarrow> regs (spi (writeRegister bus a v m)) a = v"
  by (simp add: holds_registers_def writeRegister_eq)

lemma regs_write_other:
  "holds_registers bus regs A \<Longrightarrow> a \<in> A \<Longrightarrow> b OR 0x80 \<noteq> a OR 0x80 \<Longrightarrow>
   regs (spi (writeRegister bus b v m)) a = regs (spi m) a"
  by (simp add: holds_registers_def writeRegister_eq)

lemma regs_read:
  "holds_registers bus regs A \<Longrightarrow> a \<in> A \<Longrightarrow>
   regs (spi (snd (readRegister bus b m))) a = regs (spi m) a"
  by (simp add: holds_registers_def readRegister_eq Let_def and_0x7F_neq_or_0x80)

lemma fst_read:
  "holds_registers bus regs A \<Longrightarrow> a \<in> A \<Longrightarrow> fst (readRegister bus a m) = regs (spi m) a"
  by (simp add: holds_registers_def readRegister_eq Let_def)

lemma regfile_holds:
  assumes "\<forall>a\<in>A. \<not> bit a 7"
  shows "holds_registers regfile_bus (\<lambda>r. r) A"
  unfolding holds_registers_def
proof (intro conjI allI impI)
  fix t :: "u8 \<Rightarrow> u8" and a v :: u8
  assume "a \<in> A"
  with assms have a: "\<not> bit a 7" by simp
  show "snd (spi_transfer regfile_bus t [a OR 0x80, v] 0) a = v"
    using a by (simp add: regfile_bus_def bit7_or_0x80 or80_and7F)
  show "fst (spi_transfer regfile_bus t [a AND 0x7F] 1) = [t a]"
    using a by (simp add: regfile_bus_def bit7_and_0x7F low_address_and)
next
  fix t :: "u8 \<Rightarrow> u8" and c :: "u8 list" and n :: nat and a :: u8
  assume "a \<in> A" and c: "take 1 c \<noteq> [a OR 0x80]"
  have neq: "x AND 0x7F \<noteq> a" if "bit x 7" "x \<noteq> a OR 0x80" for x :: u8
    using split_bit7 [of x] that by auto
  show "snd (spi_transfer regfile_bus t c n) a = t a"
    using c neq by (cases "(t, c, n)" rule: regfile_transfer.cases) (auto simp: regfile_bus_def)
qed

text \<open>
  Claim C10. When the transfer fails (returns the empty sequence), \<open>readRegister\<close>
  returns 0, which is also what it returns when the transfer delivers the byte 0; and
  \<open>writeRegister\<close> does not look at what the transfer returns: two transports that leave
  the same state behind give the same outcome whatever bytes they return. On the bridge
  transport, a read on a device that is not open fails in this way and yields 0.
\<close>

theorem register_primitives_hide_transfer_failure:
  "(fst (spi_transfer bus (spi m) [address AND 0x7F] 1) = [] \<longrightarrow>
      fst (readRegister bus address m) = 0) \<and>
   (fst (spi_transfer bus (spi m) [address AND 0x7F] 1) = [0] \<longrightarrow>
      fst (readRegister bus address m) = 0) \<and>
   ((\<forall>t c. snd (spi_transfer bus' t c 0) = snd (spi_transfer bus t c 0)) \<longrightarrow>
      writeRegister bus' address v m = writeRegister bus address v m) \<and>
   (\<not> device s \<longrightarrow> fst (CH341SPI_transfer s [address AND 0x7F] 1) = [] \<and>
      fst (readRegister CH341SPI_bus address \<lparr>spi = s, clock = c\<rparr>) = 0)"
proof (intro conjI impI)
  assume "fst (spi_transfer bus (spi m) [address AND 0x7F] 1) = []"
  then show "fst (readRegister bus address m) = 0"
    by (simp add: readRegister_eq)
next
  assume "fst (spi_transfer bus (spi m) [address AND 0x7F] 1) = [0]"
  then show "fst (readRegister bus address m) = 0"
    by (simp add: readRegister_eq)
next
  assume "\<forall>t c. snd (spi_transfer bus' t c 0) = snd (spi_transfer bus t c 0)"
  then show "writeRegister bus' address v m = writeRegister bus address v m"
    by (simp add: writeRegister_eq)
next
  assume closed: "\<not> device s"
  then show "fst (CH341SPI_transfer s [address AND 0x7F] 1) = []"
    by (simp add: CH341SPI_transfer_def)
  with closed show "fst (readRegister CH341SPI_bus address \<lparr>spi = s, clock = c\<rparr>) = 0"
    by (simp add: readRegister_eq CH341SPI_bus_def)
qed

theorem register_primitives_witness:
  "fst (spi_transfer scripted_bus \<lparr>replies = [], received = []\<rparr> [REG_IRQ_FLAGS AND 0x7F] 1) = [] \<and>
   fst (readRegister scripted_bus REG_IRQ_FLAGS \<lparr>spi = \<lparr>replies = [], received = []\<rparr>, clock = 0\<rparr>) = 0 \<and>
   fst (spi_transfer scripted_bus \<lparr>replies = [[0]], received = []\<rparr> [REG_IRQ_FLAGS AND 0x7F] 1) = [0] \<and>
   fst (readRegister scripted_bus REG_IRQ_FLAGS \<lparr>spi = \<lparr>replies = [[0]], received = []\<rparr>, clock = 0\<rparr>) = 0 \<and>
   writeRegister (fixed_bus (\<lambda>a. 1)) REG_IRQ_FLAGS 0xFF \<lparr>spi = (), clock = 0\<rparr> =
     writeRegister (fixed_bus (\<lambda>a. 0)) REG_IRQ_FLAGS 0xFF \<lparr>spi = (), clock = 0\<rparr> \<and>
   fst (readRegister CH341SPI_bus REG_IRQ_FLAGS
          \<lparr>spi = CH341SPI_new (host_failing_at 0x12 []) 0 False False, clock = 0\<rparr>) = 0"
  using register_primitives_hide_transfer_failure
          [where bus = scripted_bus and bus' = scripted_bus and address = REG_IRQ_FLAGS
             and m = "\<lparr>spi = \<lparr>replies = [], received = []\<rparr>, clock = 0\<rparr>" and v = 0 and c = 0
             and s = "CH341SPI_new (host_failing_at 0x12 []) 0 False False"]
        register_primitives_hide_transfer_failure
          [where bus = scripted_bus and bus' = scripted_bus and address = REG_IRQ_FLAGS
             and m = "\<lparr>spi = \<lparr>replies = [[0]], received = []\<rparr>, clock = 0\<rparr>" and v = 0 and c = 0
             and s = "CH341SPI_new (host_failing_at 0x12 []) 0 False False"]
        register_primitives_hide_transfer_failure
          [where bus = "fixed_bus (\<lambda>a. 0)" and bus' = "fixed_bus (\<lambda>a. 1)"
             and address = REG_IRQ_FLAGS and m = "\<lparr>spi = (), clock = 0\<rparr>" and v = "0xFF" and c = 0
             and s = "CH341SPI_new (host_failing_at 0x12 []) 0 False False"]
  by (simp add: scripted_bus_def scripted_transfer_def fixed_bus_def CH341SPI_new_def)

subsection \<open>Initialisation\<close>

lemma fst_RFM95_begin:
  "fst (RFM95_begin bus m) \<longleftrightarrow>
     fst (spi_open bus (spi m)) \<and>
     fst (readVersionRegister bus
            (sleep_for 10 (sleepMode bus (m\<lparr>spi := snd (spi_open bus (spi m))\<rparr>)))) = 0x12"
  by (simp add: RFM95_begin_def Let_def split: prod.splits)

text \<open>
  Claim C3, as stated: if any transfer of the initialisation fails, \<open>begin\<close> returns false.
  On the bridge transport, with a host on which bulk transfer number 2 fails (the
  chip-select command of the first exchange after \<open>open\<close>), the register read of
  \<open>sleepMode\<close> fails and returns the empty sequence, and \<open>begin\<close> returns true.
\<close>

theorem begin_succeeds_after_failed_register_read:
  "let m = \<lparr>spi = CH341SPI_new (host_failing_at 0x12 [2]) 0 False False, clock = 0\<rparr>;
       opened = snd (CH341SPI_open (spi m))
   in fst (CH341SPI_transfer opened [REG_OP_MODE AND 0x7F] 1) = [] \<and>
      fst (RFM95_begin CH341SPI_bus m)"
  unfolding fst_RFM95_begin by code_simp

text \<open>
  Claim C3, amended. \<open>begin\<close> returns true exactly when \<open>open\<close> succeeded and the
  read of the version register, made after \<open>sleepMode\<close>, returned \<open>0x12\<close>; in
  particular it returns false when the transfer that reads the version register fails.
  What the other register transfers of the initialisation return has no part in the
  result.
\<close>

theorem begin_result:
  "(fst (RFM95_begin bus m) \<longleftrightarrow>
     fst (spi_open bus (spi m)) \<and>
     fst (readVersionRegister bus
            (sleep_for 10 (sleepMode bus (m\<lparr>spi := snd (spi_open bus (spi m))\<rparr>)))) = 0x12) \<and>
   (fst (spi_transfer bus
      (spi (sleep_for 10 (sleepMode bus (m\<lparr>spi := snd (spi_open bus (spi m))\<rparr>)))) [0x42] 1) = []
     \<longrightarrow> \<not> fst (RFM95_begin bus m))"
  by (simp add: RFM95_begin_def readVersionRegister_def Let_def split: prod.splits)

theorem begin_result_witness:
  "fst (spi_transfer scripted_bus
      (spi (sleep_for 10 (sleepMode scripted_bus
         (\<lparr>spi = \<lparr>replies = [[0x09]], received = []\<rparr>, clock = 0\<rparr>
            \<lparr>spi := snd (spi_open scripted_bus
                 (spi \<lparr>spi = \<lparr>replies = [[0x09]], received = []\<rparr>, clock = 0\<rparr>))\<rparr>)))) [0x42] 1) = [] \<and>
   \<not> fst (RFM95_begin scripted_bus \<lparr>spi = \<lparr>replies = [[0x09]], received = []\<rparr>, clock = 0\<rparr>)"
  (is "?D \<and> \<not> ?A")
proof -
  have failed: ?D
    by code_simp
  have "?D \<longrightarrow> \<not> ?A"
    using begin_result [where bus = scripted_bus
      and m = "\<lparr>spi = \<lparr>replies = [[0x09]], received = []\<rparr>, clock = 0\<rparr>"]
    by (rule conjunct2)
  then have "\<not> ?A"
    using failed by (rule mp)
  with failed show ?thesis
    by (rule conjI)
qed

subsection \<open>Transmit power\<close>

text \<open>
  Claim C4. After \<open>setTxPower(level, true)\<close>, \<open>getTxPower\<close> returns \<open>level\<close> clamped to
  \<open>[2, 20]\<close>. For \<open>level = 20\<close> the setter writes \<open>0x80 | 18 = 0x92\<close> to a register that
  reads back unchanged, and the getter, which keeps the low four bits only, returns
  \<open>(0x92 & 0x0F) + 2 = 4\<close>.
\<close>

theorem getTxPower_after_setTxPower_20_boost:
  "let m = setTxPower regfile_bus 20 True \<lparr>spi = (\<lambda>a. 0), clock = 0\<rparr>
   in spi m REG_PA_CONFIG = 0x92 \<and> fst (getTxPower regfile_bus m) = 4"
  by code_simp

subsection \<open>Transmit\<close>

lemma same_iq_refl [simp]: "same_iq regs m m"
  by (simp add: same_iq_def)

lemma same_iq_trans: "same_iq regs m m1 \<Longrightarrow> same_iq regs m1 m2 \<Longrightarrow> same_iq regs m m2"
  by (simp add: same_iq_def)

lemma same_iq_normal: "same_iq regs m m' \<Longrightarrow> iq_normal regs m \<Longrightarrow> iq_normal regs m'"
  by (simp add: same_iq_def iq_normal_def)

lemma same_iq_sleep [simp]: "same_iq regs m (sleep_for n m)"
  by (simp add: same_iq_def)

lemma same_iq_read:
  "holds_registers bus regs {REG_INVERTIQ, REG_INVERTIQ2} \<Longrightarrow>
   same_iq regs m (snd (readRegister bus b m))"
  by (simp add: same_iq_def regs_read)

lemma same_iq_write:
  assumes "holds_registers bus regs {REG_INVERTIQ, REG_INVERTIQ2}"
    and "b OR 0x80 \<noteq> 0xB3" and "b OR 0x80 \<noteq> 0xBB"
  shows "same_iq regs m (writeRegister bus b v m)"
proof -
  have "b OR 0x80 \<noteq> REG_INVERTIQ OR 0x80" "b OR 0x80 \<noteq> REG_INVERTIQ2 OR 0x80"
    using assms(2,3) by (simp_all add: REG_INVERTIQ_def REG_INVERTIQ2_def)
  then show ?thesis
    using assms(1) by (simp add: same_iq_def regs_write_other)
qed

lemma setInvertIQ_False_normal:
  assumes "holds_registers bus regs {REG_INVERTIQ, REG_INVERTIQ2}"
  shows "iq_normal regs (setInvertIQ bus False m)"
proof -
  have ne: "REG_INVERTIQ2 OR 0x80 \<noteq> REG_INVERTIQ OR 0x80"
    by (simp add: REG_INVERTIQ_def REG_INVERTIQ2_def)
  show ?thesis
    using assms ne
    by (simp add: iq_normal_def setInvertIQ_def Let_def regs_write_same regs_write_other)
qed

lemma same_iq_standbyMode:
  "holds_registers bus regs {REG_INVERTIQ, REG_INVERTIQ2} \<Longrightarrow>
   same_iq regs m (standbyMode bus m)"
  by (simp add: standbyMode_def same_iq_write REG_OP_MODE_def)

lemma same_iq_setDIOMapping:
  assumes H: "holds_registers bus regs {REG_INVERTIQ, REG_INVERTIQ2}"
  shows "same_iq regs m (setDIOMapping bus d3 d4 m)"
proof -
  note w = same_iq_write [OF H]
  note r = same_iq_read [OF H]
  obtain v1 m1 where 1: "readRegister bus REG_DIO_MAPPING_1 m = (v1, m1)" by force
  define m2 where "m2 = writeRegister bus REG_DIO_MAPPING_1 ((v1 AND 0x3F) OR (d3 AND 0xC0)) m1"
  obtain v3 m3 where 3: "readRegister bus REG_DIO_MAPPING_2 m2 = (v3, m3)" by force
  define m4 where "m4 = writeRegister bus REG_DIO_MAPPING_2 ((v3 AND 0x3F) OR (d4 AND 0xC0)) m3"
  define m5 where "m5 = writeRegister bus REG_IRQ_FLAGS_MASK 0x00 m4"
  define m6 where "m6 = writeRegister bus REG_IRQ_FLAGS 0xFF m5"
  have e: "setDIOMapping bus d3 d4 m = m6"
    by (simp add: setDIOMapping_def Let_def 1 3 [unfolded m2_def] m2_def m4_def m5_def m6_def)
  have "same_iq regs m m1" using r [of m REG_DIO_MAPPING_1] 1 by simp
  moreover have "same_iq regs m1 m2" unfolding m2_def by (rule w) (simp_all add: REG_DIO_MAPPING_1_def)
  moreover have "same_iq regs m2 m3" using r [of m2 REG_DIO_MAPPING_2] 3 by simp
  moreover have "same_iq regs m3 m4" unfolding m4_def by (rule w) (simp_all add: REG_DIO_MAPPING_2_def)
  moreover have "same_iq regs m4 m5" unfolding m5_def by (rule w) (simp_all add: REG_IRQ_FLAGS_MASK_def)
  moreover have "same_iq regs m5 m6" unfolding m6_def by (rule w) (simp_all add: REG_IRQ_FLAGS_def)
  ultimately show ?thesis unfolding e by (blast intro: same_iq_trans)
qed

lemma same_iq_fold_fifo:
  assumes H: "holds_registers bus regs {REG_INVERTIQ, REG_INVERTIQ2}"
  shows "same_iq regs m (fold (\<lambda>byte. writeRegister bus REG_FIFO byte) data m)"
proof (induction data arbitrary: m)
  case Nil
  then show ?case by simp
next
  case (Cons b bs)
  have "same_iq regs m (writeRegister bus REG_FIFO b m)"
    by (rule same_iq_write [OF H]) (simp_all add: REG_FIFO_def)
  with Cons [of "writeRegister bus REG_FIFO b m"] show ?case
    by (auto intro: same_iq_trans)
qed


lemma send_wait_iq_normal:
  "holds_registers bus regs {REG_INVERTIQ, REG_INVERTIQ2} \<Longrightarrow> invert_iq \<or> iq_normal regs m \<Longrightarrow>
   iq_normal regs (snd (send_wait bus invert_iq start m))"
proof (induction bus invert_iq start m rule: send_wait.induct)
  case (1 bus invert_iq start m)
  note H = "1.prems"(1)
  note w = same_iq_write [OF H]
  obtain flags m1 where r: "readRegister bus REG_IRQ_FLAGS m = (flags, m1)" by force
  have m1: "same_iq regs m m1" using same_iq_read [OF H, of m REG_IRQ_FLAGS] r by simp
  have fin: "iq_normal regs (if invert_iq then setInvertIQ bus False m' else m')"
    if "same_iq regs m1 m'" for m'
  proof (cases invert_iq)
    case True
    then show ?thesis by (simp add: setInvertIQ_False_normal [OF H])
  next
    case False
    with "1.prems"(2) have "iq_normal regs m" by simp
    with m1 that have "iq_normal regs m'" by (blast intro: same_iq_normal)
    with False show ?thesis by simp
  qed
  show ?case
  proof (cases "flags AND IRQ_TX_DONE_MASK \<noteq> 0")
    case True
    have "same_iq regs m1 (standbyMode bus (writeRegister bus REG_IRQ_FLAGS 0xFF m1))"
      by (rule same_iq_trans [OF w same_iq_standbyMode [OF H]]) (simp_all add: REG_IRQ_FLAGS_def)
    from fin [OF this] True r show ?thesis
      by (subst send_wait.simps) (simp add: Let_def)
  next
    case False
    show ?thesis
    proof (cases "int (clock m1) - int start > 2000")
      case t: True
      from fin [OF same_iq_refl] False t r show ?thesis
        by (subst send_wait.simps) (simp add: Let_def)
    next
      case nt: False
      have "invert_iq \<or> iq_normal regs (sleep_for 1 m1)"
        using "1.prems"(2) m1 by (auto intro: same_iq_normal same_iq_trans [OF _ same_iq_sleep])
      from "1.IH" [OF r [symmetric] refl False refl nt H this] False nt r show ?thesis
        by (subst send_wait.simps) (simp add: Let_def)
    qed
  qed
qed


lemma send_iq_normal:
  assumes H: "holds_registers bus regs {REG_INVERTIQ, REG_INVERTIQ2}"
    and len: "length data \<le> 255"
  shows "iq_normal regs (snd (send bus data invert_iq m))"
proof -
  note w = same_iq_write [OF H]
  define m1 where "m1 = setInvertIQ bus invert_iq m"
  define m2 where "m2 = sleep_for 1 (standbyMode bus (setDIOMapping bus 0x40 0x40 m1))"
  obtain current m3 where r: "readRegister bus REG_DIO_MAPPING_1 m2 = (current, m3)" by force
  define m4 where "m4 = writeRegister bus REG_DIO_MAPPING_1 ((current AND 0x3F) OR 0x40) m3"
  define m5 where "m5 = writeRegister bus REG_FIFO_ADDR_PTR 0 (writeRegister bus REG_IRQ_FLAGS 0xFF m4)"
  define m6 where "m6 = fold (\<lambda>byte. writeRegister bus REG_FIFO byte) data m5"
  define m7 where "m7 = writeRegister bus REG_OP_MODE MODE_TX
                          (writeRegister bus REG_PAYLOAD_LENGTH (of_nat (length data)) m6)"
  have e: "send bus data invert_iq m = send_wait bus invert_iq (clock m7) m7"
    using len
    by (simp add: send_def Let_def r [unfolded m2_def m1_def]
          m1_def m2_def m4_def m5_def m6_def m7_def del: One_nat_def)
  have "same_iq regs m1 m2"
    unfolding m2_def
    by (blast intro: same_iq_trans same_iq_setDIOMapping [OF H] same_iq_standbyMode [OF H]
          same_iq_sleep)
  moreover have "same_iq regs m2 m3"
    using same_iq_read [OF H, of m2 REG_DIO_MAPPING_1] r by simp
  moreover have "same_iq regs m3 m4"
    unfolding m4_def by (rule w) (simp_all add: REG_DIO_MAPPING_1_def)
  moreover have "same_iq regs m4 m5"
    unfolding m5_def
    by (rule same_iq_trans [OF w w]) (simp_all add: REG_IRQ_FLAGS_def REG_FIFO_ADDR_PTR_def)
  moreover have "same_iq regs m5 m6"
    unfolding m6_def by (rule same_iq_fold_fifo [OF H])
  moreover have "same_iq regs m6 m7"
    unfolding m7_def
    by (rule same_iq_trans [OF w w]) (simp_all add: REG_PAYLOAD_LENGTH_def REG_OP_MODE_def)
  ultimately have s: "same_iq regs m1 m7"
    by (blast intro: same_iq_trans)
  have "invert_iq \<or> iq_normal regs m7"
  proof (cases invert_iq)
    case False
    then have "iq_normal regs m1"
      unfolding m1_def by (simp add: setInvertIQ_False_normal [OF H])
    with s show ?thesis by (blast intro: same_iq_normal)
  qed simp
  from send_wait_iq_normal [OF H this] show ?thesis
    by (simp add: e)
qed

text \<open>
  Claim C9, as stated: on every return path of \<open>send\<close> the IQ registers hold the
  non-inverted pair, whatever they held before the call. With a payload of 256 bytes
  \<open>send\<close> returns false at its first statement; IQ registers that held the inverted
  pair \<open>0x66\<close>, \<open>0x19\<close> before the call still hold it.
\<close>

theorem send_oversize_keeps_inverted_iq:
  "let r = (\<lambda>a. if a = REG_INVERTIQ then 0x66 else if a = REG_INVERTIQ2 then 0x19 else 0);
       (sent_ok, m') = send regfile_bus (replicate 256 0) True \<lparr>spi = r, clock = 0\<rparr>
   in \<not> sent_ok \<and> spi m' REG_INVERTIQ = 0x66 \<and> spi m' REG_INVERTIQ2 = 0x19"
  by (simp add: send_def REG_INVERTIQ_def REG_INVERTIQ2_def)

text \<open>
  Claim C9, amended. On a device that holds its two IQ registers, \<open>send\<close> with a payload
  of at most 255 bytes returns (the polling loop ends by the 2000 ms timeout at the
  latest) and on return, successful or timed out, the IQ registers hold the non-inverted
  pair \<open>0x27\<close>, \<open>0x1D\<close>, whether or not inversion was requested and whatever the registers
  held before. With a longer payload \<open>send\<close> returns false and leaves the machine
  untouched.
\<close>

theorem send_restores_normal_iq:
  "(holds_registers bus regs {REG_INVERTIQ, REG_INVERTIQ2} \<and> length data \<le> 255 \<longrightarrow>
      regs (spi (snd (send bus data invert_iq m))) REG_INVERTIQ = 0x27 \<and>
      regs (spi (snd (send bus data invert_iq m))) REG_INVERTIQ2 = 0x1D) \<and>
   (255 < length data \<longrightarrow> send bus data invert_iq m = (False, m))"
  using send_iq_normal [of bus regs data invert_iq m]
  by (auto simp: iq_normal_def send_def)

theorem send_restores_normal_iq_witness:
  "holds_registers regfile_bus (\<lambda>r. r) {REG_INVERTIQ, REG_INVERTIQ2} \<and>
   length [1, 2, 3 :: u8] \<le> 255 \<and>
   spi (snd (send regfile_bus [1, 2, 3] True \<lparr>spi = (\<lambda>a. 0), clock = 0\<rparr>)) REG_INVERTIQ = 0x27 \<and>
   spi (snd (send regfile_bus [1, 2, 3] True \<lparr>spi = (\<lambda>a. 0), clock = 0\<rparr>)) REG_INVERTIQ2 = 0x1D \<and>
   255 < length (replicate 256 (0 :: u8)) \<and>
   send regfile_bus (replicate 256 0) True \<lparr>spi = (\<lambda>a. 0), clock = 0\<rparr> =
     (False, \<lparr>spi = (\<lambda>a. 0), clock = 0\<rparr>)"
proof -
  have h: "holds_registers regfile_bus (\<lambda>r. r) {REG_INVERTIQ, REG_INVERTIQ2}"
    by (rule regfile_holds) (simp add: REG_INVERTIQ_def REG_INVERTIQ2_def)
  from h send_restores_normal_iq [of regfile_bus "\<lambda>r. r" "[1, 2, 3]" True "\<lparr>spi = (\<lambda>a. 0), clock = 0\<rparr>"]
    send_restores_normal_iq [of regfile_bus "\<lambda>r. r" "replicate 256 0" True "\<lparr>spi = (\<lambda>a. 0), clock = 0\<rparr>"]
  show ?thesis by simp
qed

subsection \<open>Bandwidth\<close>

lemma smallest_index_lt_10: "smallest_index_at_or_above bw < 10"
proof (cases "\<exists>i<10. f32_val bw \<le> f32_val (bws ! i)")
  case True
  then have "(LEAST i. i < 10 \<and> f32_val bw \<le> f32_val (bws ! i)) < 10"
    by (metis (mono_tags, lifting) LeastI_ex)
  with True show ?thesis by (simp add: smallest_index_at_or_above_def)
next
  case False
  then show ?thesis unfolding smallest_index_at_or_above_def by (simp only: if_False) 
qed

lemma bw_loop_from:
  "i \<le> 10 \<Longrightarrow> (\<forall>j<i. \<not> f32_val bw \<le> f32_val (bws ! j)) \<Longrightarrow>
   bw_loop bw i 9 = of_nat (smallest_index_at_or_above bw)"
proof (induction bw i "9 :: u8" rule: bw_loop.induct)
  case (1 bw i)
  show ?case
  proof (cases "i < 10")
    case lt: True
    show ?thesis
    proof (cases "f32_val bw \<le> f32_val (bws ! i)")
      case True
      have "(LEAST k. k < 10 \<and> f32_val bw \<le> f32_val (bws ! k)) = i"
        using lt True "1.prems"(2) by (intro Least_equality) (auto simp: not_less [symmetric])
      moreover have "\<exists>k<10. f32_val bw \<le> f32_val (bws ! k)"
        using lt True by blast
      ultimately have "smallest_index_at_or_above bw = i"
        by (simp add: smallest_index_at_or_above_def)
      with lt True show ?thesis
        by (subst bw_loop.simps) simp
    next
      case False
      have "\<forall>j<Suc i. \<not> f32_val bw \<le> f32_val (bws ! j)"
        using False "1.prems"(2) by (auto simp: less_Suc_eq)
      with "1.hyps" [OF lt False] lt have "bw_loop bw (Suc i) 9 = of_nat (smallest_index_at_or_above bw)"
        by simp
      with lt False show ?thesis
        by (subst bw_loop.simps) simp
    qed
  next
    case False
    with "1.prems" have "i = 10" by simp
    with "1.prems"(2) have "\<not> (\<exists>k<10. f32_val bw \<le> f32_val (bws ! k))"
      by blast
    then have "smallest_index_at_or_above bw = 9"
      unfolding smallest_index_at_or_above_def by (simp only: if_False)
    with False show ?thesis
      by (subst bw_loop.simps) simp
  qed
qed

lemma bit_0x0F: "bit (0x0F :: int) n \<longleftrightarrow> n < 4"
proof -
  have "(0x0F :: int) = mask 4" by (simp add: mask_eq_exp_minus_1)
  then show ?thesis by (simp only: bit_mask_iff) auto
qed

lemma nibble_bits:
  fixes x :: u8
  assumes "i < 16" and "x = of_nat i"
  shows "bit x n \<Longrightarrow> n < 4"
proof -
  have "take_bit 4 x = x"
    using assms by (simp add: take_bit_of_nat take_bit_nat_eq_self)
  moreover assume "bit x n"
  ultimately have "bit (take_bit 4 x) n" by (simp only:)
  then show "n < 4" by (simp add: bit_take_bit_iff)
qed

lemma high_nibble:
  fixes x r :: u8
  assumes nb: "\<And>n. bit x n \<Longrightarrow> n < 4"
  shows "drop_bit 4 ((r AND 0x0F) OR push_bit 4 x) = x"
  by (rule bit_word_eqI) (auto simp: bit_simps bit_0x0F dest: nb)

lemma low_nibble_kept:
  fixes x r :: u8
  shows "((r AND 0x0F) OR push_bit 4 x) AND 0x0F = r AND 0x0F"
  by (rule bit_word_eqI) (auto simp: bit_simps bit_0x0F)


lemma bws_values:
  "map f32_val bws = [8178893 / 1048576, 5452595 / 524288, 8178893 / 524288, 5452595 / 262144,
                      31.25, 10931405 / 262144, 62.5, 125, 250, 500]"
  by (simp add: bws_def f32_val_def)

text \<open>
  Claim C7. For every requested bandwidth, the index computed by the loop of
  \<open>setBandwidth\<close> is the smallest index of the ascending ten-entry table whose value is
  at or above the request, and 9 when no value qualifies; on a device that holds the
  modem-config register, the register afterwards has the index in its high nibble and its
  low nibble as before. A request of 100 selects index 7 (125 kHz), requests of 500 and
  600 select index 9 (500 kHz). The table values are the \<open>float\<close> values of the
  decimals in the source and the request is a \<open>float\<close>.
\<close>

theorem setBandwidth_selects_smallest_index_at_or_above:
  "bw_loop bw_khz 0 9 = of_nat (smallest_index_at_or_above bw_khz) \<and>
   smallest_index_at_or_above bw_khz < 10 \<and>
   sorted (map f32_val bws) \<and> length bws = 10 \<and>
   (holds_registers bus regs {REG_MODEM_CONFIG_1} \<longrightarrow>
      regs (spi (setBandwidth bus bw_khz m)) REG_MODEM_CONFIG_1 =
        (regs (spi m) REG_MODEM_CONFIG_1 AND 0x0F)
          OR push_bit 4 (of_nat (smallest_index_at_or_above bw_khz)) \<and>
      drop_bit 4 (regs (spi (setBandwidth bus bw_khz m)) REG_MODEM_CONFIG_1) =
        of_nat (smallest_index_at_or_above bw_khz) \<and>
      regs (spi (setBandwidth bus bw_khz m)) REG_MODEM_CONFIG_1 AND 0x0F =
        regs (spi m) REG_MODEM_CONFIG_1 AND 0x0F) \<and>
   bw_loop \<lparr>mant = 100, expo = 0\<rparr> 0 9 = 7 \<and> f32_val (bws ! 7) = 125 \<and>
   bw_loop \<lparr>mant = 500, expo = 0\<rparr> 0 9 = 9 \<and> f32_val (bws ! 9) = 500 \<and>
   bw_loop \<lparr>mant = 600, expo = 0\<rparr> 0 9 = 9"
proof -
  let ?k = "smallest_index_at_or_above bw_khz"
  have idx: "bw_loop bw_khz 0 9 = of_nat ?k"
    by (rule bw_loop_from) simp_all
  have lt: "?k < 10" by (rule smallest_index_lt_10)
  have nb: "bit (of_nat ?k :: u8) n \<Longrightarrow> n < 4" for n
    using lt by (intro nibble_bits [of ?k "of_nat ?k"]) simp_all
  have reg: "regs (spi (setBandwidth bus bw_khz m)) REG_MODEM_CONFIG_1 =
        (regs (spi m) REG_MODEM_CONFIG_1 AND 0x0F) OR push_bit 4 (of_nat ?k)"
    if H: "holds_registers bus regs {REG_MODEM_CONFIG_1}"
  proof -
    obtain reg1 m1 where r: "readRegister bus REG_MODEM_CONFIG_1 m = (reg1, m1)" by force
    have "reg1 = regs (spi m) REG_MODEM_CONFIG_1"
      using fst_read [OF H, of REG_MODEM_CONFIG_1 m] r by simp
    then show ?thesis
      by (simp add: setBandwidth_def Let_def r idx regs_write_same [OF H])
  qed
  have ex: "bw_loop \<lparr>mant = 100, expo = 0\<rparr> 0 9 = 7" "bw_loop \<lparr>mant = 500, expo = 0\<rparr> 0 9 = 9"
    "bw_loop \<lparr>mant = 600, expo = 0\<rparr> 0 9 = 9"
    by (simp_all add: bw_loop.simps bws_def f32_val_def)
  have tab: "sorted (map f32_val bws)" "length bws = 10" "f32_val (bws ! 7) = 125"
    "f32_val (bws ! 9) = 500"
    by (simp_all add: bws_def f32_val_def)
  have hi: "drop_bit 4 (regs (spi (setBandwidth bus bw_khz m)) REG_MODEM_CONFIG_1) = of_nat ?k"
    if H: "holds_registers bus regs {REG_MODEM_CONFIG_1}"
    by (simp only: reg [OF H] high_nibble [OF nb])
  have lo: "regs (spi (setBandwidth bus bw_khz m)) REG_MODEM_CONFIG_1 AND 0x0F =
        regs (spi m) REG_MODEM_CONFIG_1 AND 0x0F"
    if H: "holds_registers bus regs {REG_MODEM_CONFIG_1}"
    by (simp only: reg [OF H] low_nibble_kept)
  show ?thesis
    by (intro conjI impI idx lt ex tab reg hi lo)
qed


theorem setBandwidth_witness:
  "holds_registers regfile_bus (\<lambda>r. r) {REG_MODEM_CONFIG_1} \<and>
   smallest_index_at_or_above \<lparr>mant = 100, expo = 0\<rparr> = 7 \<and>
   spi (setBandwidth regfile_bus \<lparr>mant = 100, expo = 0\<rparr> \<lparr>spi = (\<lambda>a. 0x72), clock = 0\<rparr>)
     REG_MODEM_CONFIG_1 = 0x72"
proof -
  let ?bw = "\<lparr>mant = 100, expo = 0\<rparr>"
  let ?k = "smallest_index_at_or_above ?bw"
  note t = setBandwidth_selects_smallest_index_at_or_above
             [of ?bw regfile_bus "\<lambda>r. r" "\<lparr>spi = (\<lambda>a. 0x72), clock = 0\<rparr>"]
  have h: "holds_registers regfile_bus (\<lambda>r. r) {REG_MODEM_CONFIG_1}"
    by (rule regfile_holds) (simp add: REG_MODEM_CONFIG_1_def)
  from t have lt: "?k < 10" and a: "bw_loop ?bw 0 9 = of_nat ?k" and b: "bw_loop ?bw 0 9 = 7"
    by blast+
  from a b have eq: "(of_nat ?k :: u8) = 7" by simp
  from lt have "unat (of_nat ?k :: u8) = ?k" by (simp add: unat_of_nat)
  with eq have k: "?k = 7" by simp
  from t h have "spi (setBandwidth regfile_bus ?bw \<lparr>spi = (\<lambda>a. 0x72), clock = 0\<rparr>) REG_MODEM_CONFIG_1 =
      (spi \<lparr>spi = (\<lambda>a. 0x72), clock = 0\<rparr> REG_MODEM_CONFIG_1 AND 0x0F) OR push_bit 4 (of_nat ?k)"
    by blast
  with k h show ?thesis by simp
qed

subsection \<open>Frequency\<close>

text \<open>
  Claim C6, as stated: the synthesizer word is \<open>round(frequency_MHz * 2^19 / 32)\<close>. The
  code casts to \<open>uint32_t\<close>, which truncates. For the \<open>float\<close> argument
  \<open>11075587 * 2^-16 = 169.0000457763671875\<close> (MHz) the product is \<open>2768896.75\<close>: the
  code writes the word 2768896, rounding gives 2768897.
\<close>

theorem setFrequency_truncates:
  "let x = \<lparr>mant = 11075587, expo = - 16\<rparr>
   in f32_ok x \<and> uint (frf_of x) = 2768896 \<and> frf_rounded x = 2768897"
  by (simp add: f32_ok_def frf_of_def f32_val_def trunc_def frf_rounded_def round_def)

lemma bit_0xFF: "bit (0xFF :: int) n \<longleftrightarrow> n < 8"
proof -
  have "(0xFF :: int) = mask 8" by (simp add: mask_eq_exp_minus_1)
  then show ?thesis by (simp only: bit_mask_iff) auto
qed

lemma frf_bytes_recombine:
  fixes frf :: u32
  assumes "\<And>n. bit frf n \<Longrightarrow> n < 24"
  shows "push_bit 16 (ucast (ucast (drop_bit 16 frf AND 0xFF) :: u8) :: u32)
           OR push_bit 8 (ucast (ucast (drop_bit 8 frf AND 0xFF) :: u8))
           OR ucast (ucast (frf AND 0xFF) :: u8) = frf"
proof (rule bit_word_eqI)
  fix n :: nat
  consider "n < 8" | "8 \<le> n" "n < 16" | "16 \<le> n" "n < 24" | "24 \<le> n"
    by linarith
  then show "bit (push_bit 16 (ucast (ucast (drop_bit 16 frf AND 0xFF) :: u8) :: u32)
           OR push_bit 8 (ucast (ucast (drop_bit 8 frf AND 0xFF) :: u8))
           OR ucast (ucast (frf AND 0xFF) :: u8)) n = bit frf n"
  proof cases
    case 1
    then show ?thesis by (simp add: bit_simps bit_0xFF)
  next
    case 2
    then show ?thesis by (simp add: bit_simps bit_0xFF) arith
  next
    case 3
    then show ?thesis by (simp add: bit_simps bit_0xFF) arith
  next
    case 4
    then have "\<not> bit frf n" using assms [of n] by auto
    with 4 show ?thesis by (simp add: bit_simps bit_0xFF)
  qed
qed


lemma frf_of_floor:
  assumes "0 \<le> f32_val f" and "f32_val f < 1024"
  shows "frf_of f = word_of_int \<lfloor>f32_val f * 2 ^ 19 / 32\<rfloor>"
    and "0 \<le> \<lfloor>f32_val f * 2 ^ 19 / 32\<rfloor>"
    and "\<lfloor>f32_val f * 2 ^ 19 / 32\<rfloor> < 2 ^ 24"
proof -
  have "0 \<le> f32_val f * 2 ^ 19 / 32" using assms(1) by simp
  then show "frf_of f = word_of_int \<lfloor>f32_val f * 2 ^ 19 / 32\<rfloor>"
    by (simp add: frf_of_def trunc_def)
  show "0 \<le> \<lfloor>f32_val f * 2 ^ 19 / 32\<rfloor>" using assms(1) by simp
  have "f32_val f * 2 ^ 19 / 32 < 2 ^ 24" using assms(2) by simp
  then show "\<lfloor>f32_val f * 2 ^ 19 / 32\<rfloor> < 2 ^ 24"
    by (simp add: floor_less_iff)
qed

lemma word24_bits:
  fixes w :: u32
  assumes "0 \<le> n" and "n < 2 ^ 24" and "w = word_of_int n"
  shows "bit w k \<Longrightarrow> k < 24" and "uint w = n" and "unat w = nat n"
proof -
  have t: "take_bit 24 n = n" using assms(1,2) by (simp add: take_bit_int_eq_self)
  have "take_bit 24 w = w"
    unfolding assms(3) by (simp only: take_bit_of_int t)
  moreover assume "bit w k"
  ultimately have "bit (take_bit 24 w) k" by (simp only:)
  then show "k < 24" by (simp add: bit_take_bit_iff)
next
  have "n < 2 ^ 32" using assms(2) by simp
  then show u: "uint w = n"
    unfolding assms(3) using assms(1) by (simp add: uint_word_of_int_eq take_bit_int_eq_self)
  then show "unat w = nat n" by (simp add: unat_eq_nat_uint)
qed


lemma uint_byte_of:
  fixes w :: u32
  shows "uint (ucast (drop_bit k w AND 0xFF) :: u8) = uint w div 2 ^ k mod 256"
proof -
  have m: "(0xFF :: int) = mask 8" by (simp add: mask_eq_exp_minus_1)
  have t: "take_bit 32 (uint w) = uint w"
    by (rule take_bit_int_eq_self) (use uint_lt2p [of w] in simp_all)
  have "uint (ucast (drop_bit k w AND 0xFF) :: u8) = take_bit 8 (drop_bit k (uint w) AND 0xFF)"
    by (simp add: unsigned_ucast_eq unsigned_and_eq unsigned_drop_bit_eq t)
  also have "\<dots> = take_bit 8 (drop_bit k (uint w))"
    unfolding m by (simp add: take_bit_eq_mask)
  also have "\<dots> = uint w div 2 ^ k mod 256"
    by (simp add: take_bit_eq_mod drop_bit_eq_div)
  finally show ?thesis .
qed


lemma frf_addresses:
  "REG_FRF_MID OR 0x80 \<noteq> REG_FRF_MSB OR 0x80" "REG_FRF_LSB OR 0x80 \<noteq> REG_FRF_MSB OR 0x80"
  "REG_FRF_LSB OR 0x80 \<noteq> REG_FRF_MID OR 0x80"
  by (simp_all add: REG_FRF_MSB_def REG_FRF_MID_def REG_FRF_LSB_def)

lemma setFrequency_regs:
  assumes H: "holds_registers bus regs {REG_FRF_MSB, REG_FRF_MID, REG_FRF_LSB}"
  shows "regs (spi (setFrequency bus f m)) REG_FRF_MSB = ucast (drop_bit 16 (frf_of f) AND 0xFF)"
    and "regs (spi (setFrequency bus f m)) REG_FRF_MID = ucast (drop_bit 8 (frf_of f) AND 0xFF)"
    and "regs (spi (setFrequency bus f m)) REG_FRF_LSB = ucast (frf_of f AND 0xFF)"
  using frf_addresses
  by (simp_all add: setFrequency_def Let_def regs_write_same [OF H] regs_write_other [OF H])

lemma getFrequency_value:
  assumes H: "holds_registers bus regs {REG_FRF_MSB, REG_FRF_MID, REG_FRF_LSB}"
  shows "fst (getFrequency bus m) =
     real (unat (push_bit 16 (ucast (regs (spi m) REG_FRF_MSB) :: u32)
                   OR push_bit 8 (ucast (regs (spi m) REG_FRF_MID))
                   OR ucast (regs (spi m) REG_FRF_LSB))) * 32 / 524288"
proof -
  obtain b2 m2 where 2: "readRegister bus REG_FRF_MSB m = (b2, m2)" by force
  obtain b1 m1 where 1: "readRegister bus REG_FRF_MID m2 = (b1, m1)" by force
  obtain b0 m0 where 0: "readRegister bus REG_FRF_LSB m1 = (b0, m0)" by force
  have s2: "spi m2 = spi (snd (readRegister bus REG_FRF_MSB m))" using 2 by simp
  have s1: "spi m1 = spi (snd (readRegister bus REG_FRF_MID m2))" using 1 by simp
  have "b2 = regs (spi m) REG_FRF_MSB"
    using fst_read [OF H, of REG_FRF_MSB m] 2 by simp
  moreover have "b1 = regs (spi m) REG_FRF_MID"
    using fst_read [OF H, of REG_FRF_MID m2] 1 by (simp add: s2 regs_read [OF H])
  moreover have "b0 = regs (spi m) REG_FRF_LSB"
    using fst_read [OF H, of REG_FRF_LSB m1] 0 by (simp add: s1 s2 regs_read [OF H])
  ultimately show ?thesis
    by (simp add: getFrequency_def Let_def 2 1 0)
qed

text \<open>
  Claim C6, amended. For a \<open>float\<close> frequency \<open>f\<close> with \<open>0 \<le> f < 1024\<close> MHz, on a
  device that holds the three frequency registers: the synthesizer word is the truncation
  \<open>\<lfloor>f * 2^19 / 32\<rfloor>\<close>, written most significant byte first to the three registers;
  \<open>getFrequency\<close> afterwards returns \<open>word * 32 / 2^19\<close>; and that value is at most
  \<open>f\<close> and less than one synthesizer step \<open>32 / 2^19\<close> MHz below it.
\<close>

theorem frequency_round_trip:
  "holds_registers bus regs {REG_FRF_MSB, REG_FRF_MID, REG_FRF_LSB} \<and>
   0 \<le> f32_val f \<and> f32_val f < 1024 \<longrightarrow>
   (let n = \<lfloor>f32_val f * 2 ^ 19 / 32\<rfloor>;
        m' = setFrequency bus f m;
        g = fst (getFrequency bus m')
    in uint (frf_of f) = n \<and>
       uint (regs (spi m') REG_FRF_MSB) = n div 65536 \<and>
       uint (regs (spi m') REG_FRF_MID) = n div 256 mod 256 \<and>
       uint (regs (spi m') REG_FRF_LSB) = n mod 256 \<and>
       g = real_of_int n * 32 / 2 ^ 19 \<and>
       0 \<le> f32_val f - g \<and> f32_val f - g < 32 / 2 ^ 19)"
proof (intro impI, elim conjE)
  assume H: "holds_registers bus regs {REG_FRF_MSB, REG_FRF_MID, REG_FRF_LSB}"
    and lo: "0 \<le> f32_val f" and hi: "f32_val f < 1024"
  define n where "n = \<lfloor>f32_val f * 2 ^ 19 / 32\<rfloor>"
  define m' where "m' = setFrequency bus f m"
  note fl = frf_of_floor [OF lo hi, folded n_def]
  note w = word24_bits [OF fl(2) fl(3) fl(1)]
  have u: "uint (frf_of f) = n" by (rule w(2))
  have b2: "uint (regs (spi m') REG_FRF_MSB) = n div 65536"
    using uint_byte_of [of 16 "frf_of f"] fl(2,3)
    by (simp add: m'_def setFrequency_regs [OF H] u)
  have b1: "uint (regs (spi m') REG_FRF_MID) = n div 256 mod 256"
    using uint_byte_of [of 8 "frf_of f"]
    by (simp add: m'_def setFrequency_regs [OF H] u)
  have b0: "uint (regs (spi m') REG_FRF_LSB) = n mod 256"
    using uint_byte_of [of 0 "frf_of f"]
    by (simp add: m'_def setFrequency_regs [OF H] u)
  have "fst (getFrequency bus m') = real (unat (frf_of f)) * 32 / 524288"
    unfolding getFrequency_value [OF H] m'_def setFrequency_regs [OF H]
    by (simp only: frf_bytes_recombine [OF w(1)])
  then have g: "fst (getFrequency bus m') = real_of_int n * 32 / 2 ^ 19"
    using w(3) fl(2) by simp
  have "real_of_int n \<le> f32_val f * 2 ^ 19 / 32" "f32_val f * 2 ^ 19 / 32 < real_of_int n + 1"
    unfolding n_def by linarith+
  then have d: "0 \<le> f32_val f - fst (getFrequency bus m')"
    "f32_val f - fst (getFrequency bus m') < 32 / 2 ^ 19"
    unfolding g by simp_all
  show "let n = \<lfloor>f32_val f * 2 ^ 19 / 32\<rfloor>;
        m' = setFrequency bus f m;
        g = fst (getFrequency bus m')
    in uint (frf_of f) = n \<and>
       uint (regs (spi m') REG_FRF_MSB) = n div 65536 \<and>
       uint (regs (spi m') REG_FRF_MID) = n div 256 mod 256 \<and>
       uint (regs (spi m') REG_FRF_LSB) = n mod 256 \<and>
       g = real_of_int n * 32 / 2 ^ 19 \<and>
       0 \<le> f32_val f - g \<and> f32_val f - g < 32 / 2 ^ 19"
    unfolding Let_def n_def [symmetric] m'_def [symmetric]
    by (intro conjI u b2 b1 b0 g d)
qed


theorem frequency_round_trip_witness:
  "holds_registers regfile_bus (\<lambda>r. r) {REG_FRF_MSB, REG_FRF_MID, REG_FRF_LSB} \<and>
   0 \<le> f32_val \<lparr>mant = 11075587, expo = - 16\<rparr> \<and>
   f32_val \<lparr>mant = 11075587, expo = - 16\<rparr> < 1024 \<and>
   uint (frf_of \<lparr>mant = 11075587, expo = - 16\<rparr>) = 2768896 \<and>
   fst (getFrequency regfile_bus
          (setFrequency regfile_bus \<lparr>mant = 11075587, expo = - 16\<rparr>
             \<lparr>spi = (\<lambda>a. 0), clock = 0\<rparr>)) = 169 \<and>
   f32_val \<lparr>mant = 11075587, expo = - 16\<rparr> - 169 < 32 / 2 ^ 19"
proof -
  let ?x = "\<lparr>mant = 11075587, expo = - 16\<rparr>"
  have h: "holds_registers regfile_bus (\<lambda>r. r) {REG_FRF_MSB, REG_FRF_MID, REG_FRF_LSB}"
    by (rule regfile_holds) (simp add: REG_FRF_MSB_def REG_FRF_MID_def REG_FRF_LSB_def)
  have r: "0 \<le> f32_val ?x" "f32_val ?x < 1024"
    by (simp_all add: f32_val_def)
  have n: "\<lfloor>f32_val ?x * 2 ^ 19 / 32\<rfloor> = 2768896"
    by (simp add: f32_val_def)
  let ?g = "fst (getFrequency regfile_bus
                   (setFrequency regfile_bus ?x \<lparr>spi = (\<lambda>a. 0), clock = 0\<rparr>))"
  from frequency_round_trip [of regfile_bus "\<lambda>r. r" ?x "\<lparr>spi = (\<lambda>a. 0), clock = 0\<rparr>"] h r
  have "uint (frf_of ?x) = \<lfloor>f32_val ?x * 2 ^ 19 / 32\<rfloor>"
    and "?g = real_of_int \<lfloor>f32_val ?x * 2 ^ 19 / 32\<rfloor> * 32 / 2 ^ 19"
    and "f32_val ?x - ?g < 32 / 2 ^ 19"
    unfolding Let_def by blast+
  then have "uint (frf_of ?x) = 2768896" and "?g = 169" and "f32_val ?x - 169 < 32 / 2 ^ 19"
    unfolding n by simp_all
  with h r show ?thesis
    by (intro conjI)
qed

subsection \<open>Receive: timeout\<close>

lemma clock_setInvertIQ [simp]: "clock (setInvertIQ bus b m) = clock m"
  by (simp add: setInvertIQ_def Let_def)

lemma length_read_fifo: "length (fst (read_fifo bus n acc m)) = length acc + n"
  by (induction n arbitrary: acc m) (simp_all add: Let_def split: prod.splits)

lemma receive_poll_packet_nonempty:
  assumes "receive_poll bus invert_iq m = Return_packet data m'"
  shows "data \<noteq> []"
proof -
  obtain flags m1 where r1: "readRegister bus REG_IRQ_FLAGS m = (flags, m1)" by force
  obtain len m2 where r2: "readRegister bus REG_RX_NB_BYTES m1 = (len, m2)" by force
  obtain addr m3 where r3: "readRegister bus REG_FIFO_RX_CURRENT_ADDR m2 = (addr, m3)" by force
  obtain d m4 where
    r4: "read_fifo bus (unat len) [] (writeRegister bus REG_FIFO_ADDR_PTR addr m3) = (d, m4)"
    by force
  from assms have l: "0 < len" and d: "data = d"
    by (simp_all add: receive_poll_def Let_def r1 r2 r3 r4 split: if_splits)
  from l have "0 < unat len" by (simp add: unat_gt_0 word_greater_zero_iff [symmetric])
  with length_read_fifo [of bus "unat len" "[]" "writeRegister bus REG_FIFO_ADDR_PTR addr m3"] r4 d
  show ?thesis by auto
qed

lemma receive_wait_empty_only_after_timeout:
  assumes "receive_wait bus invert_iq timeout start_time m = Some y"
  shows "fst y = [] \<longrightarrow> timeout * 1000 < real_of_int (int (clock (snd y)) - int start_time)"
proof (rule receive_wait.raw_induct
    [where P = "\<lambda>bus invert_iq timeout start_time m y.
       fst y = [] \<longrightarrow> timeout * 1000 < real_of_int (int (clock (snd y)) - int start_time)",
     OF _ assms], goal_cases)
  case (1 rw bus invert_iq timeout start_time m y)
  show ?case
  proof (cases "receive_poll bus invert_iq m")
    case (Return_packet data m1)
    with 1(2) have "y = (data, m1)" by simp
    with receive_poll_packet_nonempty [OF Return_packet] show ?thesis by simp
  next
    case (Continue m1)
    with 1(2) have "rw bus invert_iq timeout start_time m1 = Some y" by simp
    then show ?thesis by (rule 1(1))
  next
    case (Fall_through m1)
    show ?thesis
    proof (cases "timeout * 1000 < real_of_int (int (clock m1) - int start_time)")
      case True
      with 1(2) Fall_through have "clock (snd y) = clock m1"
        by (auto simp: Let_def)
      with True show ?thesis by simp
    next
      case False
      with 1(2) Fall_through have "rw bus invert_iq timeout start_time (sleep_for 1 m1) = Some y"
        by simp
      then show ?thesis by (rule 1(1))
    qed
  qed
qed


lemma readRegister_fixed [simp]:
  "readRegister (fixed_bus f) a m = (f (a AND 0x7F), m)"
  by (simp add: readRegister_def fixed_bus_def)

lemma writeRegister_fixed [simp]: "writeRegister (fixed_bus f) a v m = m"
  by (simp add: writeRegister_def fixed_bus_def)

lemma setInvertIQ_fixed [simp]: "setInvertIQ (fixed_bus f) b m = m"
  by (simp add: setInvertIQ_def)

lemma setDIOMapping_fixed [simp]: "setDIOMapping (fixed_bus f) a b m = m"
  by (simp add: setDIOMapping_def)

lemma receive_wait_all_fall_through:
  assumes idle: "\<And>m. receive_poll (fixed_bus f) invert_iq m = Fall_through m"
  shows "timeout * 1000 < real_of_int (int (clock m) + int k - int start_time) \<Longrightarrow>
         (\<forall>j<k. \<not> timeout * 1000 < real_of_int (int (clock m) + int j - int start_time)) \<Longrightarrow>
         receive_wait (fixed_bus f) invert_iq timeout start_time m =
           Some ([], m\<lparr>clock := clock m + k\<rparr>)"
proof (induction k arbitrary: m)
  case 0
  then show ?case
    by (subst receive_wait.simps) (simp add: idle)
next
  case (Suc k)
  from Suc.prems(2) have now: "\<not> timeout * 1000 < real_of_int (int (clock m) - int start_time)"
    by (auto dest: spec [of _ 0])
  have later: "\<forall>j<k. \<not> timeout * 1000
      < real_of_int (int (clock (sleep_for 1 m)) + int j - int start_time)"
  proof (intro allI impI)
    fix j assume "j < k"
    then have "Suc j < Suc k" by simp
    with Suc.prems(2) have "\<not> timeout * 1000 < real_of_int (int (clock m) + int (Suc j) - int start_time)"
      by blast
    then show "\<not> timeout * 1000 < real_of_int (int (clock (sleep_for 1 m)) + int j - int start_time)"
      by (simp add: sleep_for_def algebra_simps)
  qed
  have "timeout * 1000 < real_of_int (int (clock (sleep_for 1 m)) + int k - int start_time)"
    using Suc.prems(1) by (simp add: sleep_for_def algebra_simps)
  from Suc.IH [OF this later] now show ?case
    by (subst receive_wait.simps) (simp add: idle sleep_for_def)
qed

lemma receive_fixed_times_out:
  assumes idle: "\<And>m. receive_poll (fixed_bus f) invert_iq m = Fall_through m"
    and "timeout * 1000 < real k" and "real k \<le> timeout * 1000 + 1"
  shows "receive (fixed_bus f) timeout invert_iq m = Some ([], m\<lparr>clock := clock m + k\<rparr>)"
proof -
  have "receive_wait (fixed_bus f) invert_iq timeout (clock m) m = Some ([], m\<lparr>clock := clock m + k\<rparr>)"
    using assms(2,3) by (intro receive_wait_all_fall_through [OF idle]) auto
  then show ?thesis by (simp add: receive_def)
qed

lemma clock_setDIOMapping [simp]: "clock (setDIOMapping bus a b m) = clock m"
  by (simp add: setDIOMapping_def Let_def split: prod.splits)
     (metis clock_readRegister clock_writeRegister snd_conv)

text \<open>
  Claim C2, as stated: the result of \<open>receive\<close> on timeout can be told from the result
  for a successfully received packet of length zero. With a timeout of 0.1 s, a device
  that never raises a flag and a device that reports receive-done without CRC error and a
  byte count of zero at every poll give the same result: the empty sequence, after 101
  polls.
\<close>

theorem receive_timeout_same_as_zero_length_packet:
  "receive (fixed_bus (\<lambda>a. 0)) 0.1 False \<lparr>spi = (), clock = 0\<rparr>
     = Some ([], \<lparr>spi = (), clock = 101\<rparr>) \<and>
   receive (fixed_bus (\<lambda>a. if a = REG_IRQ_FLAGS then IRQ_RX_DONE_MASK else 0)) 0.1 False
       \<lparr>spi = (), clock = 0\<rparr>
     = Some ([], \<lparr>spi = (), clock = 101\<rparr>)"
proof -
  have 1: "receive_poll (fixed_bus (\<lambda>a. 0)) False m = Fall_through m" for m
    by (simp add: receive_poll_def)
  have 2: "receive_poll (fixed_bus (\<lambda>a. if a = REG_IRQ_FLAGS then IRQ_RX_DONE_MASK else 0)) False m
             = Fall_through m" for m
    by (simp add: receive_poll_def RFM95_consts)
  show ?thesis
    using receive_fixed_times_out [OF 1, of "0.1" 101 "\<lparr>spi = (), clock = 0\<rparr>"]
      receive_fixed_times_out [OF 2, of "0.1" 101 "\<lparr>spi = (), clock = 0\<rparr>"]
    by simp
qed


text \<open>
  Claim C2, amended. \<open>receive\<close> returns the empty sequence only when the timeout has
  elapsed: if it returns the empty sequence, more than \<open>timeout * 1000\<close> milliseconds
  have passed since the call. A poll that finds receive-done without CRC error and a byte
  count of zero does not return: it falls through to the timeout check, so such a
  reception ends in the same empty result as no reception.
\<close>

theorem receive_empty_only_after_timeout:
  "(receive bus timeout invert_iq m = Some (pkt, m') \<and> pkt = [] \<longrightarrow>
      timeout * 1000 < real_of_int (int (clock m') - int (clock m))) \<and>
   (fst (readRegister bus REG_IRQ_FLAGS m) AND IRQ_RX_DONE_MASK \<noteq> 0 \<and>
    fst (readRegister bus REG_IRQ_FLAGS m) AND IRQ_PAYLOAD_CRC_ERROR_MASK = 0 \<and>
    fst (readRegister bus REG_RX_NB_BYTES (snd (readRegister bus REG_IRQ_FLAGS m))) = 0 \<longrightarrow>
      receive_poll bus invert_iq m =
        Fall_through (snd (readRegister bus REG_RX_NB_BYTES (snd (readRegister bus REG_IRQ_FLAGS m)))))"
proof (intro conjI impI)
  assume a: "receive bus timeout invert_iq m = Some (pkt, m') \<and> pkt = []"
  define m0 where "m0 = writeRegister bus REG_IRQ_FLAGS 0xFF
     (setDIOMapping bus 0x40 0xC0
        (writeRegister bus REG_OP_MODE MODE_RX_CONTINUOUS (setInvertIQ bus invert_iq m)))"
  have c: "clock m0 = clock m" by (simp add: m0_def)
  from a have "receive_wait bus invert_iq timeout (clock m0) m0 = Some (pkt, m')"
    by (simp add: receive_def Let_def m0_def)
  from receive_wait_empty_only_after_timeout [OF this] a
  show "timeout * 1000 < real_of_int (int (clock m') - int (clock m))"
    by (simp add: c)
next
  assume "fst (readRegister bus REG_IRQ_FLAGS m) AND IRQ_RX_DONE_MASK \<noteq> 0 \<and>
    fst (readRegister bus REG_IRQ_FLAGS m) AND IRQ_PAYLOAD_CRC_ERROR_MASK = 0 \<and>
    fst (readRegister bus REG_RX_NB_BYTES (snd (readRegister bus REG_IRQ_FLAGS m))) = 0"
  then show "receive_poll bus invert_iq m =
        Fall_through (snd (readRegister bus REG_RX_NB_BYTES (snd (readRegister bus REG_IRQ_FLAGS m))))"
    by (auto simp: receive_poll_def Let_def split: prod.splits)
qed

theorem receive_empty_only_after_timeout_witness:
  "receive (fixed_bus (\<lambda>a. if a = REG_IRQ_FLAGS then IRQ_RX_DONE_MASK else 0)) 0.1 False
       \<lparr>spi = (), clock = 0\<rparr> = Some ([], \<lparr>spi = (), clock = 101\<rparr>) \<and>
   (0.1 :: real) * 1000 < real_of_int (int (clock \<lparr>spi = (), clock = 101\<rparr>)
                                        - int (clock \<lparr>spi = (), clock = 0\<rparr>)) \<and>
   receive_poll (fixed_bus (\<lambda>a. if a = REG_IRQ_FLAGS then IRQ_RX_DONE_MASK else 0)) False
       \<lparr>spi = (), clock = 0\<rparr> = Fall_through \<lparr>spi = (), clock = 0\<rparr>"
proof -
  let ?bus = "fixed_bus (\<lambda>a. if a = REG_IRQ_FLAGS then IRQ_RX_DONE_MASK else 0)"
  have p: "receive_poll ?bus False m = Fall_through m" for m
    by (simp add: receive_poll_def RFM95_consts)
  have r: "receive ?bus 0.1 False \<lparr>spi = (), clock = 0\<rparr> = Some ([], \<lparr>spi = (), clock = 101\<rparr>)"
    using receive_fixed_times_out [OF p, of "0.1" 101 "\<lparr>spi = (), clock = 0\<rparr>"] by simp
  from receive_empty_only_after_timeout
         [of ?bus "0.1" False "\<lparr>spi = (), clock = 0\<rparr>" "[]" "\<lparr>spi = (), clock = 101\<rparr>"] r
  have "(0.1 :: real) * 1000 < real_of_int (int (clock \<lparr>spi = (), clock = 101\<rparr>)
                                        - int (clock \<lparr>spi = (), clock = 0\<rparr>))"
    and "receive_poll ?bus False \<lparr>spi = (), clock = 0\<rparr> = Fall_through \<lparr>spi = (), clock = 0\<rparr>"
    by (simp_all add: RFM95_consts)
  with r show ?thesis by (intro conjI)
qed

subsection \<open>Receive: CRC errors\<close>

lemma receive_poll_idle:
  assumes "fst (readRegister bus REG_IRQ_FLAGS m) AND IRQ_RX_DONE_MASK = 0"
  shows "receive_poll bus invert_iq m = Fall_through (snd (readRegister bus REG_IRQ_FLAGS m))"
proof -
  obtain flags m1 where r: "readRegister bus REG_IRQ_FLAGS m = (flags, m1)" by force
  with assms show ?thesis by (simp add: receive_poll_def Let_def)
qed

lemma receive_poll_crc_error:
  assumes "fst (readRegister bus REG_IRQ_FLAGS m) AND IRQ_RX_DONE_MASK \<noteq> 0"
    and "fst (readRegister bus REG_IRQ_FLAGS m) AND IRQ_PAYLOAD_CRC_ERROR_MASK \<noteq> 0"
  shows "receive_poll bus invert_iq m =
           Continue (writeRegister bus REG_IRQ_FLAGS 0xFF (snd (readRegister bus REG_IRQ_FLAGS m)))"
proof -
  obtain flags m1 where r: "readRegister bus REG_IRQ_FLAGS m = (flags, m1)" by force
  with assms show ?thesis by (auto simp: receive_poll_def Let_def)
qed

lemma receive_poll_clean:
  assumes "fst (readRegister bus REG_IRQ_FLAGS m) AND IRQ_RX_DONE_MASK \<noteq> 0"
    and "fst (readRegister bus REG_IRQ_FLAGS m) AND IRQ_PAYLOAD_CRC_ERROR_MASK = 0"
    and "0 < fst (readRegister bus REG_RX_NB_BYTES (snd (readRegister bus REG_IRQ_FLAGS m)))"
  shows "receive_poll bus invert_iq m =
           Return_packet (fst (read_packet bus invert_iq (snd (readRegister bus REG_IRQ_FLAGS m))))
                         (snd (read_packet bus invert_iq (snd (readRegister bus REG_IRQ_FLAGS m))))"
proof -
  obtain flags m1 where r: "readRegister bus REG_IRQ_FLAGS m = (flags, m1)" by force
  obtain len m2 where r2: "readRegister bus REG_RX_NB_BYTES m1 = (len, m2)" by force
  from assms r r2 show ?thesis
    by (auto simp: receive_poll_def read_packet_def Let_def split: prod.splits)
qed


lemma fst_read_scripted:
  "fst (readRegister scripted_bus a m) =
     (case replies (spi m) of [] \<Rightarrow> 0 | r # rs \<Rightarrow> if r \<noteq> [] then hd r else 0)"
  by (simp add: readRegister_def scripted_bus_def scripted_transfer_def Let_def split: list.splits)

lemma replies_read_scripted [simp]:
  "replies (spi (snd (readRegister scripted_bus a m))) = tl (replies (spi m))"
  by (simp add: readRegister_def scripted_bus_def scripted_transfer_def Let_def split: list.splits)

lemma replies_write_scripted [simp]:
  "replies (spi (writeRegister scripted_bus a v m)) = replies (spi m)"
  by (simp add: writeRegister_def scripted_bus_def scripted_transfer_def Let_def)

lemma replies_setInvertIQ_scripted [simp]:
  "replies (spi (setInvertIQ scripted_bus b m)) = replies (spi m)"
  by (simp add: setInvertIQ_def Let_def)

lemma replies_setDIOMapping_scripted [simp]:
  "replies (spi (setDIOMapping scripted_bus a b m)) = tl (tl (replies (spi m)))"
proof -
  obtain v1 m1 where 1: "readRegister scripted_bus REG_DIO_MAPPING_1 m = (v1, m1)" by force
  obtain v3 m3 where 3: "readRegister scripted_bus REG_DIO_MAPPING_2
      (writeRegister scripted_bus REG_DIO_MAPPING_1 ((v1 AND 0x3F) OR (a AND 0xC0)) m1) = (v3, m3)"
    by force
  have "replies (spi m1) = tl (replies (spi m))"
    using replies_read_scripted [of REG_DIO_MAPPING_1 m] 1 by simp
  moreover have "replies (spi m3) = tl (replies (spi m1))"
    using replies_read_scripted [of REG_DIO_MAPPING_2
        "writeRegister scripted_bus REG_DIO_MAPPING_1 ((v1 AND 0x3F) OR (a AND 0xC0)) m1"] 3
    by simp
  ultimately show ?thesis
    by (simp add: setDIOMapping_def Let_def 1 3)
qed

lemma read_fifo_scripted:
  "replies (spi m) = map (\<lambda>b. [b]) data @ rest \<Longrightarrow>
   fst (read_fifo scripted_bus (length data) acc m) = acc @ data \<and>
   replies (spi (snd (read_fifo scripted_bus (length data) acc m))) = rest \<and>
   clock (snd (read_fifo scripted_bus (length data) acc m)) = clock m"
proof (induction data arbitrary: acc m)
  case Nil
  then show ?case by simp
next
  case (Cons b bs)
  obtain v m1 where r: "readRegister scripted_bus REG_FIFO m = (v, m1)" by force
  have v: "v = b" using fst_read_scripted [of REG_FIFO m] r Cons.prems by simp
  have "replies (spi m1) = map (\<lambda>b. [b]) bs @ rest"
    using replies_read_scripted [of REG_FIFO m] r Cons.prems by simp
  moreover have "clock m1 = clock m"
    using clock_readRegister [of scripted_bus REG_FIFO m] r by simp
  ultimately show ?case
    using Cons.IH [of m1 "acc @ [b]"] by (simp add: r v)
qed


lemma receive_wait_idle_run:
  "replies (spi m) = map (\<lambda>f. [f]) idle @ rs \<Longrightarrow>
   list_all (\<lambda>f. f AND IRQ_RX_DONE_MASK = 0) idle \<Longrightarrow>
   (\<forall>j<length idle. \<not> timeout * 1000 < real_of_int (int (clock m) + int j - int start_time)) \<Longrightarrow>
   \<exists>m'. receive_wait scripted_bus invert_iq timeout start_time m =
           receive_wait scripted_bus invert_iq timeout start_time m' \<and>
        replies (spi m') = rs \<and> clock m' = clock m + length idle"
proof (induction idle arbitrary: m)
  case Nil
  then show ?case by auto
next
  case (Cons f fs)
  let ?m1 = "snd (readRegister scripted_bus REG_IRQ_FLAGS m)"
  have fl: "fst (readRegister scripted_bus REG_IRQ_FLAGS m) = f"
    using Cons.prems(1) by (simp add: fst_read_scripted)
  have p: "receive_poll scripted_bus invert_iq m = Fall_through ?m1"
    using Cons.prems(2) by (intro receive_poll_idle) (simp add: fl)
  have now: "\<not> timeout * 1000 < real_of_int (int (clock ?m1) - int start_time)"
    using Cons.prems(3) by (auto dest: spec [of _ 0])
  have step: "receive_wait scripted_bus invert_iq timeout start_time m =
              receive_wait scripted_bus invert_iq timeout start_time (sleep_for 1 ?m1)"
    using now by (subst receive_wait.simps) (simp add: p)
  have r: "replies (spi (sleep_for 1 ?m1)) = map (\<lambda>f. [f]) fs @ rs"
    using Cons.prems(1) by simp
  have a: "list_all (\<lambda>f. f AND IRQ_RX_DONE_MASK = 0) fs"
    using Cons.prems(2) by simp
  have t: "\<forall>j<length fs. \<not> timeout * 1000
             < real_of_int (int (clock (sleep_for 1 ?m1)) + int j - int start_time)"
  proof (intro allI impI)
    fix j assume "j < length fs"
    then have "Suc j < length (f # fs)" by simp
    with Cons.prems(3)
    have "\<not> timeout * 1000 < real_of_int (int (clock m) + int (Suc j) - int start_time)"
      by blast
    then show "\<not> timeout * 1000
             < real_of_int (int (clock (sleep_for 1 ?m1)) + int j - int start_time)"
      by (simp add: sleep_for_def algebra_simps)
  qed
  from Cons.IH [OF r a t] obtain m' where
    "receive_wait scripted_bus invert_iq timeout start_time (sleep_for 1 ?m1) =
       receive_wait scripted_bus invert_iq timeout start_time m'"
    "replies (spi m') = rs" "clock m' = clock (sleep_for 1 ?m1) + length fs"
    by blast
  with step show ?case
    by (intro exI [of _ m']) (simp add: sleep_for_def)
qed

lemma receive_wait_crc_scripted:
  assumes "replies (spi m) = [f] # rs"
    and "f AND IRQ_RX_DONE_MASK \<noteq> 0" and "f AND IRQ_PAYLOAD_CRC_ERROR_MASK \<noteq> 0"
  shows "\<exists>m'. receive_wait scripted_bus invert_iq timeout start_time m =
           receive_wait scripted_bus invert_iq timeout start_time m' \<and>
        replies (spi m') = rs \<and> clock m' = clock m"
proof -
  let ?m1 = "writeRegister scripted_bus REG_IRQ_FLAGS 0xFF
               (snd (readRegister scripted_bus REG_IRQ_FLAGS m))"
  have fl: "fst (readRegister scripted_bus REG_IRQ_FLAGS m) = f"
    using assms(1) by (simp add: fst_read_scripted)
  have "receive_poll scripted_bus invert_iq m = Continue ?m1"
    using assms(2,3) by (intro receive_poll_crc_error) (simp_all add: fl)
  then have "receive_wait scripted_bus invert_iq timeout start_time m =
             receive_wait scripted_bus invert_iq timeout start_time ?m1"
    by (subst receive_wait.simps) simp
  moreover have "replies (spi ?m1) = rs" "clock ?m1 = clock m"
    using assms(1) by simp_all
  ultimately show ?thesis by blast
qed

lemma receive_wait_clean_scripted:
  assumes rep: "replies (spi m) = [f] # [of_nat (length data)] # [addr] # map (\<lambda>b. [b]) data @ rest"
    and "f AND IRQ_RX_DONE_MASK \<noteq> 0" and "f AND IRQ_PAYLOAD_CRC_ERROR_MASK = 0"
    and "data \<noteq> []" and "length data \<le> 255"
  shows "\<exists>m'. receive_wait scripted_bus invert_iq timeout start_time m = Some (data, m') \<and>
        replies (spi m') = rest \<and> clock m' = clock m"
proof -
  let ?m1 = "snd (readRegister scripted_bus REG_IRQ_FLAGS m)"
  let ?len = "of_nat (length data) :: u8"
  have u: "unat ?len = length data"
    using assms(5) by (simp add: unat_of_nat)
  with assms(4) have pos: "0 < ?len"
    by (metis length_greater_0_conv unat_gt_0 word_greater_zero_iff)
  have fl: "fst (readRegister scripted_bus REG_IRQ_FLAGS m) = f"
    using rep by (simp add: fst_read_scripted)
  have r1: "replies (spi ?m1) = [?len] # [addr] # map (\<lambda>b. [b]) data @ rest"
    using rep by simp
  obtain l m2 where 2: "readRegister scripted_bus REG_RX_NB_BYTES ?m1 = (l, m2)" by force
  have l: "l = ?len" using fst_read_scripted [of REG_RX_NB_BYTES ?m1] 2 r1 by simp
  have r2: "replies (spi m2) = [addr] # map (\<lambda>b. [b]) data @ rest"
    using replies_read_scripted [of REG_RX_NB_BYTES ?m1] 2 r1 by simp
  have c2: "clock m2 = clock m"
    using clock_readRegister [of scripted_bus REG_RX_NB_BYTES ?m1] 2 by simp
  obtain a m3 where 3: "readRegister scripted_bus REG_FIFO_RX_CURRENT_ADDR m2 = (a, m3)" by force
  have r3: "replies (spi m3) = map (\<lambda>b. [b]) data @ rest"
    using replies_read_scripted [of REG_FIFO_RX_CURRENT_ADDR m2] 3 r2 by simp
  have c3: "clock m3 = clock m"
    using clock_readRegister [of scripted_bus REG_FIFO_RX_CURRENT_ADDR m2] 3 c2 by simp
  let ?m4 = "writeRegister scripted_bus REG_FIFO_ADDR_PTR a m3"
  obtain d m5 where 5: "read_fifo scripted_bus (length data) [] ?m4 = (d, m5)" by force
  have f5: "d = data" "replies (spi m5) = rest" "clock m5 = clock m"
    using read_fifo_scripted [of ?m4 data rest "[]"] 5 r3 c3 by simp_all
  let ?m6 = "writeRegister scripted_bus REG_IRQ_FLAGS 0xFF m5"
  let ?m7 = "if invert_iq then setInvertIQ scripted_bus False ?m6 else ?m6"
  have pk: "read_packet scripted_bus invert_iq ?m1 = (data, ?m7)"
    by (simp add: read_packet_def Let_def 2 l u 3 5 f5(1))
  have "receive_poll scripted_bus invert_iq m = Return_packet data ?m7"
    using receive_poll_clean [of scripted_bus m invert_iq] assms(2,3) pos
    by (simp add: fl 2 l pk)
  then have "receive_wait scripted_bus invert_iq timeout start_time m = Some (data, ?m7)"
    by (subst receive_wait.simps) simp
  moreover have "replies (spi ?m7) = rest" "clock ?m7 = clock m"
    using f5 by simp_all
  ultimately show ?thesis by blast
qed


lemma receive_crc_then_clean_scripted:
  assumes idle1: "list_all (\<lambda>f. f AND IRQ_RX_DONE_MASK = 0) idle1"
    and idle2: "list_all (\<lambda>f. f AND IRQ_RX_DONE_MASK = 0) idle2"
    and crc: "crc AND IRQ_RX_DONE_MASK \<noteq> 0" "crc AND IRQ_PAYLOAD_CRC_ERROR_MASK \<noteq> 0"
    and clean: "clean AND IRQ_RX_DONE_MASK \<noteq> 0" "clean AND IRQ_PAYLOAD_CRC_ERROR_MASK = 0"
    and data: "data \<noteq> []" "length data \<le> 255"
    and time: "real (length idle1 + length idle2) \<le> timeout * 1000"
  shows "\<exists>m'. receive scripted_bus timeout invert_iq
            \<lparr>spi = \<lparr>replies = r1 # r2 # map (\<lambda>f. [f]) idle1 @ [crc] # map (\<lambda>f. [f]) idle2
                       @ [clean] # [of_nat (length data)] # [addr] # map (\<lambda>b. [b]) data @ rest,
                     received = cmds\<rparr>,
             clock = c\<rparr> = Some (data, m') \<and>
          replies (spi m') = rest \<and> clock m' = c + length idle1 + length idle2"
proof -
  let ?after_crc = "map (\<lambda>f. [f]) idle2
                       @ [clean] # [of_nat (length data)] # [addr] # map (\<lambda>b. [b]) data @ rest"
  let ?script = "r1 # r2 # map (\<lambda>f. [f]) idle1 @ [crc] # ?after_crc"
  let ?m = "\<lparr>spi = \<lparr>replies = ?script, received = cmds\<rparr>, clock = c\<rparr>"
  define m0 where "m0 = writeRegister scripted_bus REG_IRQ_FLAGS 0xFF
     (setDIOMapping scripted_bus 0x40 0xC0
        (writeRegister scripted_bus REG_OP_MODE MODE_RX_CONTINUOUS
           (setInvertIQ scripted_bus invert_iq ?m)))"
  have e: "receive scripted_bus timeout invert_iq ?m =
           receive_wait scripted_bus invert_iq timeout c m0"
    by (simp add: receive_def Let_def m0_def)
  have c0: "clock m0 = c" by (simp add: m0_def)
  have r0: "replies (spi m0) = map (\<lambda>f. [f]) idle1 @ [crc] # ?after_crc"
    by (simp add: m0_def)
  have t1: "\<forall>j<length idle1. \<not> timeout * 1000 < real_of_int (int (clock m0) + int j - int c)"
    using time by (auto simp: c0)
  from receive_wait_idle_run [OF r0 idle1 t1, where invert_iq = invert_iq] obtain m1 where
    1: "receive_wait scripted_bus invert_iq timeout c m0 =
          receive_wait scripted_bus invert_iq timeout c m1"
       "replies (spi m1) = [crc] # ?after_crc" "clock m1 = c + length idle1"
    by (auto simp: c0)
  from receive_wait_crc_scripted [OF 1(2) crc, where invert_iq = invert_iq and timeout = timeout
      and start_time = c] obtain m2 where
    2: "receive_wait scripted_bus invert_iq timeout c m1 =
          receive_wait scripted_bus invert_iq timeout c m2"
       "replies (spi m2) = ?after_crc" "clock m2 = c + length idle1"
    by (auto simp: 1(3))
  have t2: "\<forall>j<length idle2. \<not> timeout * 1000 < real_of_int (int (clock m2) + int j - int c)"
    using time by (auto simp: 2(3))
  from receive_wait_idle_run [OF 2(2) idle2 t2, where invert_iq = invert_iq] obtain m3 where
    3: "receive_wait scripted_bus invert_iq timeout c m2 =
          receive_wait scripted_bus invert_iq timeout c m3"
       "replies (spi m3) = [clean] # [of_nat (length data)] # [addr] # map (\<lambda>b. [b]) data @ rest"
       "clock m3 = c + length idle1 + length idle2"
    by (auto simp: 2(3))
  from receive_wait_clean_scripted [OF 3(2) clean data, where invert_iq = invert_iq
      and timeout = timeout and start_time = c] obtain m4 where
    4: "receive_wait scripted_bus invert_iq timeout c m3 = Some (data, m4)"
       "replies (spi m4) = rest" "clock m4 = c + length idle1 + length idle2"
    by (auto simp: 3(3))
  from e 1(1) 2(1) 3(1) 4 show ?thesis
    by (intro exI [of _ m4]) simp
qed

text \<open>
  Claim C8. A poll of \<open>receive\<close> that finds receive-done together with the CRC-error
  flag writes \<open>0xFF\<close> to the IRQ flags register and continues with the next poll
  without returning. Consequently, on a transport that answers the polls from a script
  (any replies to the two reads of the setup, polls without receive-done, a poll with
  receive-done and CRC error, more polls without receive-done, then a poll with
  receive-done and no CRC error, the byte count, the FIFO address and the bytes of a
  non-empty packet), with no more idle polls than the timeout has milliseconds,
  \<open>receive\<close> returns that packet.
\<close>

theorem receive_continues_after_crc_error:
  "(fst (readRegister bus REG_IRQ_FLAGS m) AND IRQ_RX_DONE_MASK \<noteq> 0 \<and>
    fst (readRegister bus REG_IRQ_FLAGS m) AND IRQ_PAYLOAD_CRC_ERROR_MASK \<noteq> 0 \<longrightarrow>
      receive_poll bus invert_iq m =
        Continue (writeRegister bus REG_IRQ_FLAGS 0xFF (snd (readRegister bus REG_IRQ_FLAGS m))) \<and>
      receive_wait bus invert_iq timeout start_time m =
        receive_wait bus invert_iq timeout start_time
          (writeRegister bus REG_IRQ_FLAGS 0xFF (snd (readRegister bus REG_IRQ_FLAGS m)))) \<and>
   (list_all (\<lambda>f. f AND IRQ_RX_DONE_MASK = 0) idle1 \<and>
    list_all (\<lambda>f. f AND IRQ_RX_DONE_MASK = 0) idle2 \<and>
    crc AND IRQ_RX_DONE_MASK \<noteq> 0 \<and> crc AND IRQ_PAYLOAD_CRC_ERROR_MASK \<noteq> 0 \<and>
    clean AND IRQ_RX_DONE_MASK \<noteq> 0 \<and> clean AND IRQ_PAYLOAD_CRC_ERROR_MASK = 0 \<and>
    data \<noteq> [] \<and> length data \<le> 255 \<and>
    real (length idle1 + length idle2) \<le> timeout' * 1000 \<longrightarrow>
      (\<exists>m'. receive scripted_bus timeout' invert_iq'
            \<lparr>spi = \<lparr>replies = r1 # r2 # map (\<lambda>f. [f]) idle1 @ [crc] # map (\<lambda>f. [f]) idle2
                       @ [clean] # [of_nat (length data)] # [addr] # map (\<lambda>b. [b]) data @ rest,
                     received = cmds\<rparr>,
             clock = c\<rparr> = Some (data, m') \<and>
          replies (spi m') = rest \<and> clock m' = c + length idle1 + length idle2))"
proof (intro conjI impI)
  assume a: "fst (readRegister bus REG_IRQ_FLAGS m) AND IRQ_RX_DONE_MASK \<noteq> 0 \<and>
    fst (readRegister bus REG_IRQ_FLAGS m) AND IRQ_PAYLOAD_CRC_ERROR_MASK \<noteq> 0"
  then show p: "receive_poll bus invert_iq m =
        Continue (writeRegister bus REG_IRQ_FLAGS 0xFF (snd (readRegister bus REG_IRQ_FLAGS m)))"
    by (intro receive_poll_crc_error) simp_all
  show "receive_wait bus invert_iq timeout start_time m =
        receive_wait bus invert_iq timeout start_time
          (writeRegister bus REG_IRQ_FLAGS 0xFF (snd (readRegister bus REG_IRQ_FLAGS m)))"
    by (subst receive_wait.simps) (simp add: p)
next
  assume "list_all (\<lambda>f. f AND IRQ_RX_DONE_MASK = 0) idle1 \<and>
    list_all (\<lambda>f. f AND IRQ_RX_DONE_MASK = 0) idle2 \<and>
    crc AND IRQ_RX_DONE_MASK \<noteq> 0 \<and> crc AND IRQ_PAYLOAD_CRC_ERROR_MASK \<noteq> 0 \<and>
    clean AND IRQ_RX_DONE_MASK \<noteq> 0 \<and> clean AND IRQ_PAYLOAD_CRC_ERROR_MASK = 0 \<and>
    data \<noteq> [] \<and> length data \<le> 255 \<and>
    real (length idle1 + length idle2) \<le> timeout' * 1000"
  then show "\<exists>m'. receive scripted_bus timeout' invert_iq'
            \<lparr>spi = \<lparr>replies = r1 # r2 # map (\<lambda>f. [f]) idle1 @ [crc] # map (\<lambda>f. [f]) idle2
                       @ [clean] # [of_nat (length data)] # [addr] # map (\<lambda>b. [b]) data @ rest,
                     received = cmds\<rparr>,
             clock = c\<rparr> = Some (data, m') \<and>
          replies (spi m') = rest \<and> clock m' = c + length idle1 + length idle2"
    by (intro receive_crc_then_clean_scripted) simp_all
qed


theorem receive_continues_after_crc_error_witness:
  "receive_poll scripted_bus True \<lparr>spi = \<lparr>replies = [[0x60]], received = []\<rparr>, clock = 0\<rparr> =
     Continue \<lparr>spi = \<lparr>replies = [], received = [[0x12], [0x92, 0xFF]]\<rparr>, clock = 0\<rparr> \<and>
   (\<exists>m'. receive scripted_bus 0.1 True
            \<lparr>spi = \<lparr>replies = [[0], [0], [0], [0x60], [0x10], [0x40], [3], [7], [1], [2], [3]],
                     received = []\<rparr>,
             clock = 0\<rparr> = Some ([1, 2, 3], m') \<and>
          replies (spi m') = [] \<and> clock m' = 2)"
proof -
  let ?m = "\<lparr>spi = \<lparr>replies = [[0x60]], received = []\<rparr>, clock = 0\<rparr>"
  note t = receive_continues_after_crc_error
     [where bus = scripted_bus and m = ?m and invert_iq = True and timeout = 0 and start_time = 0
        and ?idle1.0 = "[0]" and crc = "0x60" and ?idle2.0 = "[0x10]" and clean = "0x40"
        and data = "[1, 2, 3]" and addr = 7 and ?r1.0 = "[0]" and ?r2.0 = "[0]" and rest = "[]"
        and cmds = "[]" and c = 0 and timeout' = "0.1" and invert_iq' = True]
  have f: "fst (readRegister scripted_bus REG_IRQ_FLAGS ?m) = 0x60"
    by (simp add: fst_read_scripted)
  have w: "writeRegister scripted_bus REG_IRQ_FLAGS 0xFF (snd (readRegister scripted_bus REG_IRQ_FLAGS ?m))
         = \<lparr>spi = \<lparr>replies = [], received = [[0x12], [0x92, 0xFF]]\<rparr>, clock = 0\<rparr>"
    by (simp add: writeRegister_def readRegister_def scripted_bus_def scripted_transfer_def
          REG_IRQ_FLAGS_def)
  have h1: "fst (readRegister scripted_bus REG_IRQ_FLAGS ?m) AND IRQ_RX_DONE_MASK \<noteq> 0 \<and>
    fst (readRegister scripted_bus REG_IRQ_FLAGS ?m) AND IRQ_PAYLOAD_CRC_ERROR_MASK \<noteq> 0"
    by (simp add: f IRQ_RX_DONE_MASK_def IRQ_PAYLOAD_CRC_ERROR_MASK_def)
  from t [THEN conjunct1, THEN mp, OF h1, THEN conjunct1]
  have 1: "receive_poll scripted_bus True ?m =
     Continue \<lparr>spi = \<lparr>replies = [], received = [[0x12], [0x92, 0xFF]]\<rparr>, clock = 0\<rparr>"
    by (simp only: w)
  have h2: "list_all (\<lambda>f. f AND IRQ_RX_DONE_MASK = 0) [0] \<and>
    list_all (\<lambda>f. f AND IRQ_RX_DONE_MASK = 0) [0x10] \<and>
    0x60 AND IRQ_RX_DONE_MASK \<noteq> 0 \<and> 0x60 AND IRQ_PAYLOAD_CRC_ERROR_MASK \<noteq> 0 \<and>
    0x40 AND IRQ_RX_DONE_MASK \<noteq> 0 \<and> 0x40 AND IRQ_PAYLOAD_CRC_ERROR_MASK = 0 \<and>
    [1, 2, 3 :: u8] \<noteq> [] \<and> length [1, 2, 3 :: u8] \<le> 255 \<and>
    real (length [0 :: u8] + length [0x10 :: u8]) \<le> 0.1 * 1000"
    by (simp add: IRQ_RX_DONE_MASK_def IRQ_PAYLOAD_CRC_ERROR_MASK_def)
  from t [THEN conjunct2, THEN mp, OF h2]
  have 2: "\<exists>m'. receive scripted_bus 0.1 True
            \<lparr>spi = \<lparr>replies = [[0], [0], [0], [0x60], [0x10], [0x40], [3], [7], [1], [2], [3]],
                     received = []\<rparr>,
             clock = 0\<rparr> = Some ([1, 2, 3], m') \<and>
          replies (spi m') = [] \<and> clock m' = 2"
    by (simp add: numeral_2_eq_2)
  from 1 2 show ?thesis by (rule conjI)
qed

end
